theory Spec2Isabelle
  imports Complex_Main
begin

section \<open>BoxLabeler: the session state\<close>

text \<open>
  The development follows \<^verbatim>\<open>src/boxlabeler/annotator.py\<close>. Python floats are
  idealised as exact reals, Python ints are \<open>int\<close>, and every exception the modelled
  code can raise is a value of \<open>py_error\<close>. A \<open>string\<close> is a Python \<^verbatim>\<open>str\<close> whose
  characters are the code points 0 to 255, one \<open>char\<close> each; text with code points
  above 255 is outside the model. The Tk widgets (canvas items, dropdown,
  title, redraw scheduling) carry no data the functions below read back, so they are
  left out of the state; the canvas size that \<^verbatim>\<open>winfo_width\<close> and
  \<^verbatim>\<open>winfo_height\<close> report is passed as an argument.
\<close>

datatype py_error = ZeroDivisionError | IndexError | ValueError | TypeError | NonFiniteFloat

text \<open>
  The first four are Python exceptions. \<open>NonFiniteFloat\<close> is not one: it marks a run in
  which a coordinate read from a label file is \<^verbatim>\<open>inf\<close> or \<^verbatim>\<open>nan\<close>. The code stores
  such a box and goes on; the boxes of this model have real coordinates and cannot hold
  it, so the model stops there and says so.
\<close>

type_synonym box = "real \<times> real \<times> real \<times> real \<times> int"

record labeler =
  image_folder :: "string option"
  class_names :: "(int \<times> string) list"
  images :: "string list"
  labels_dir :: "string option"
  img_width :: int
  img_height :: int
  boxes :: "box list"
  start_x :: "int option"
  start_y :: "int option"
  rect :: "nat option"
  active_class :: int
  scale :: real
  offset_x :: real
  offset_y :: real
  zoom_index :: int
  index :: int

text \<open>\<^verbatim>\<open>DEFAULT_CLASS_NAMES = {0: "object"}\<close>; a dict is kept as an association list
  in insertion order, which is the order Python iterates it in.\<close>

definition DEFAULT_CLASS_NAMES :: "(int \<times> string) list" where
  "DEFAULT_CLASS_NAMES = [(0, ''object'')]"

text \<open>\<^verbatim>\<open>self.zoom_levels\<close>, assigned once in the constructor and never changed.\<close>

definition zoom_levels :: "real list" where
  "zoom_levels =
     [0.05, 0.075, 0.1, 0.15, 0.2, 0.25, 0.33, 0.5, 0.67,
      0.75, 0.85, 1.0, 1.25, 1.5, 2.0, 3.0, 4.0, 5.0, 7.0, 10.0]"

text \<open>The fields as \<^verbatim>\<open>BoxLabeler.__init__\<close> leaves them when no folder is given.\<close>

definition init_labeler :: labeler where
  "init_labeler =
     \<lparr> image_folder = None, class_names = DEFAULT_CLASS_NAMES, images = [],
       labels_dir = None, img_width = 0, img_height = 0, boxes = [],
       start_x = None, start_y = None, rect = None, active_class = 0,
       scale = 1.0, offset_x = 0.0, offset_y = 0.0, zoom_index = 0, index = 0 \<rparr>"

section \<open>Coordinate conversions\<close>

definition canvas_to_image :: "labeler \<Rightarrow> real \<Rightarrow> real \<Rightarrow> py_error + real \<times> real" where
  "canvas_to_image s cx cy =
     (if scale s = 0 then Inl ZeroDivisionError
      else Inr ((cx - offset_x s) / scale s, (cy - offset_y s) / scale s))"

definition image_to_canvas :: "labeler \<Rightarrow> real \<Rightarrow> real \<Rightarrow> real \<times> real" where
  "image_to_canvas s ix iy = (ix * scale s + offset_x s, iy * scale s + offset_y s)"

section \<open>Fit to window and stepped zoom\<close>

text \<open>The loop of \<^verbatim>\<open>_nearest_zoom_index\<close> over \<^verbatim>\<open>enumerate(self.zoom_levels)\<close>,
  carrying \<open>(best_idx, best_diff)\<close>.\<close>

fun nearest_loop :: "real \<Rightarrow> (nat \<times> real) list \<Rightarrow> nat \<times> real \<Rightarrow> nat \<times> real" where
  "nearest_loop target [] best = best"
| "nearest_loop target ((i, level) # rest) (best_idx, best_diff) =
     (let diff = \<bar>level - target\<bar>
      in if diff < best_diff then nearest_loop target rest (i, diff)
         else nearest_loop target rest (best_idx, best_diff))"

definition nearest_zoom_index :: "real \<Rightarrow> nat" where
  "nearest_zoom_index target_scale =
     fst (nearest_loop target_scale (enumerate 0 zoom_levels)
            (0, \<bar>zoom_levels ! 0 - target_scale\<bar>))"

text \<open>\<^verbatim>\<open>_fit_to_window\<close>; \<open>cw0\<close> and \<open>ch0\<close> are what the canvas reports.\<close>

definition fit_to_window :: "labeler \<Rightarrow> int \<Rightarrow> int \<Rightarrow> py_error + labeler" where
  "fit_to_window s cw0 ch0 =
     (let cw = (if cw0 < 10 then 1200 else cw0);
          ch = (if ch0 < 10 then 750 else ch0)
      in if img_width s = 0 \<or> img_height s = 0 then Inl ZeroDivisionError
         else
           let sx = real_of_int cw / real_of_int (img_width s);
               sy = real_of_int ch / real_of_int (img_height s);
               fit_scale = min (min sx sy) 1.0;
               zi = nearest_zoom_index fit_scale;
               sc = zoom_levels ! zi
           in Inr (s\<lparr> zoom_index := int zi, scale := sc,
                       offset_x := (real_of_int cw - real_of_int (img_width s) * sc) / 2,
                       offset_y := (real_of_int ch - real_of_int (img_height s) * sc) / 2 \<rparr>))"

definition zoom_step :: "labeler \<Rightarrow> int \<Rightarrow> int \<Rightarrow> int \<Rightarrow> py_error + labeler" where
  "zoom_step s cx cy direction =
     (case canvas_to_image s (real_of_int cx) (real_of_int cy) of
        Inl e \<Rightarrow> Inl e
      | Inr (ix, iy) \<Rightarrow>
          let new_index = max 0 (min (zoom_index s + direction) (int (length zoom_levels) - 1))
          in if new_index = zoom_index s then Inr s
             else
               let sc = zoom_levels ! nat new_index
               in Inr (s\<lparr> zoom_index := new_index, scale := sc,
                           offset_x := real_of_int cx - ix * sc,
                           offset_y := real_of_int cy - iy * sc \<rparr>))"

text \<open>The transform-state invariant of the specification.\<close>

definition scale_matches_table :: "labeler \<Rightarrow> bool" where
  "scale_matches_table s \<longleftrightarrow>
     0 \<le> zoom_index s \<and> zoom_index s < int (length zoom_levels) \<and>
     scale s = zoom_levels ! nat (zoom_index s)"

section \<open>Drawing a box\<close>

text \<open>Lines 730 to 736 of \<^verbatim>\<open>on_button_release\<close>: both drag endpoints in image space,
  ordered per axis and clamped to the image.\<close>

definition drag_rect ::
  "labeler \<Rightarrow> int \<Rightarrow> int \<Rightarrow> int \<Rightarrow> int \<Rightarrow> py_error + real \<times> real \<times> real \<times> real" where
  "drag_rect s sx sy ex ey =
     (case canvas_to_image s (real_of_int sx) (real_of_int sy) of
        Inl e \<Rightarrow> Inl e
      | Inr (ix1, iy1) \<Rightarrow>
          (case canvas_to_image s (real_of_int ex) (real_of_int ey) of
             Inl e \<Rightarrow> Inl e
           | Inr (ix2, iy2) \<Rightarrow>
               Inr (max 0 (min ix1 ix2), max 0 (min iy1 iy2),
                    min (real_of_int (img_width s)) (max ix1 ix2),
                    min (real_of_int (img_height s)) (max iy1 iy2))))"

definition on_button_release :: "labeler \<Rightarrow> int \<Rightarrow> int \<Rightarrow> py_error + labeler" where
  "on_button_release s ex ey =
     (case (start_x s, start_y s) of
        (Some sx, Some sy) \<Rightarrow>
          (case drag_rect s sx sy ex ey of
             Inl e \<Rightarrow> Inl e
           | Inr (x1, y1, x2, y2) \<Rightarrow>
               if x2 - x1 < 3 \<or> y2 - y1 < 3 then Inr (s\<lparr> rect := None \<rparr>)
               else Inr (s\<lparr> boxes := boxes s @ [(x1, y1, x2, y2, active_class s)],
                           rect := None \<rparr>))
      | _ \<Rightarrow> Inr s)"

section \<open>Strings as Python handles them\<close>

text \<open>
  Each \<open>char\<close> is one code point in the range 0 to 255. Among these \<^verbatim>\<open>str.strip\<close> and
  \<^verbatim>\<open>str.split\<close> take as whitespace the tab, line feed, vertical tab, form feed,
  carriage return, the four separators 0x1C to 0x1F, the space, the next-line character
  0x85 and the no-break space 0xA0.
\<close>

definition is_space :: "char \<Rightarrow> bool" where
  "is_space c \<longleftrightarrow>
     c \<in> set [CHR 0x09, CHR 0x0A, CHR 0x0B, CHR 0x0C, CHR 0x0D,
                CHR 0x1C, CHR 0x1D, CHR 0x1E, CHR 0x1F, CHR '' '', CHR 0x85, CHR 0xA0]"

definition strip :: "string \<Rightarrow> string" where
  "strip s = rev (dropWhile is_space (rev (dropWhile is_space s)))"

text \<open>\<^verbatim>\<open>str.split()\<close> without arguments: the maximal runs of non-whitespace, in order.
  \<open>cur\<close> holds the token being read, reversed.\<close>

fun split_acc :: "string \<Rightarrow> string \<Rightarrow> string list" where
  "split_acc cur [] = (if cur = [] then [] else [rev cur])"
| "split_acc cur (c # cs) =
     (if is_space c then (if cur = [] then split_acc [] cs else rev cur # split_acc [] cs)
      else split_acc (c # cur) cs)"

definition split_ws :: "string \<Rightarrow> string list" where
  "split_ws s = split_acc [] s"

text \<open>\<^verbatim>\<open>str.lower\<close> on one code point below 256: the letters \<open>A\<close> to \<open>Z\<close> and the
  capital letters 0xC0 to 0xDE, except the multiplication sign 0xD7, move up by 32.\<close>

definition lower_char :: "char \<Rightarrow> char" where
  "lower_char c =
     (let n = (of_char c :: nat)
      in if (65 \<le> n \<and> n \<le> 90) \<or> (192 \<le> n \<and> n \<le> 222 \<and> n \<noteq> 215)
         then char_of (n + 32) else c)"

definition lower :: "string \<Rightarrow> string" where
  "lower s = map lower_char s"

subsection \<open>Rendering and reading numbers\<close>

definition digit_char :: "nat \<Rightarrow> char" where
  "digit_char d = char_of (48 + d)"

definition is_digit :: "char \<Rightarrow> bool" where
  "is_digit c \<longleftrightarrow> 48 \<le> (of_char c :: nat) \<and> (of_char c :: nat) \<le> 57"

definition digit_val :: "char \<Rightarrow> nat" where
  "digit_val c = of_char c - 48"

fun show_nat :: "nat \<Rightarrow> string" where
  "show_nat n = (if n < 10 then [digit_char n] else show_nat (n div 10) @ [digit_char (n mod 10)])"

declare show_nat.simps [simp del]

text \<open>\<^verbatim>\<open>str(i)\<close> for an int, as the f-string \<^verbatim>\<open>{cls}\<close> renders it.\<close>

definition show_int :: "int \<Rightarrow> string" where
  "show_int i = (if i < 0 then CHR ''-'' # show_nat (nat (- i)) else show_nat (nat i))"

definition read_nat :: "string \<Rightarrow> nat" where
  "read_nat ds = foldl (\<lambda>a c. 10 * a + digit_val c) 0 ds"

text \<open>Rounding to the nearest integer, ties to even, as the float formatter rounds the
  last printed digit.\<close>

definition round_half_even :: "real \<Rightarrow> int" where
  "round_half_even r =
     (let f = \<lfloor>r\<rfloor>; d = r - of_int f
      in if d < 1 / 2 then f else if 1 / 2 < d then f + 1
         else if even f then f else f + 1)"

text \<open>The format specification \<^verbatim>\<open>:.6f\<close>: sign, integer part, a point and exactly six
  decimals.\<close>

definition fmt6 :: "real \<Rightarrow> string" where
  "fmt6 x =
     (let m = nat (round_half_even (\<bar>x\<bar> * 1000000));
          frac = show_nat (m mod 1000000)
      in (if x < 0 then ''-'' else []) @ show_nat (m div 1000000) @ ''.'' @
         replicate (6 - length frac) CHR ''0'' @ frac)"

text \<open>
  \<^verbatim>\<open>int(token)\<close> and \<^verbatim>\<open>float(token)\<close>. Both allow single underscores between
  digits: an underscore must follow a digit and precede a digit, and is then dropped.
  \<open>prev\<close> is the character before the rest of the token, \<open>CHR 0x00\<close> at its start.
  The interpreter's limit on the digits of an integer string, 4300 unless it is
  configured otherwise, is left out of \<open>py_int\<close> and of \<open>show_int\<close>.
\<close>

fun drop_underscores :: "char \<Rightarrow> string \<Rightarrow> string option" where
  "drop_underscores prev [] = (if prev = CHR ''_'' then None else Some [])"
| "drop_underscores prev (c # cs) =
     (if c = CHR ''_'' then (if is_digit prev then drop_underscores c cs else None)
      else if prev = CHR ''_'' \<and> \<not> is_digit c then None
      else map_option ((#) c) (drop_underscores c cs))"

definition strip_sign :: "string \<Rightarrow> bool \<times> string" where
  "strip_sign s =
     (case s of
        [] \<Rightarrow> (False, [])
      | c # cs \<Rightarrow> if c = CHR ''-'' then (True, cs) else if c = CHR ''+'' then (False, cs)
                  else (False, s))"

text \<open>A token without underscores as a decimal integer: an optional sign and at least
  one digit. \<open>None\<close> is the \<^verbatim>\<open>ValueError\<close>.\<close>

definition plain_int :: "string \<Rightarrow> int option" where
  "plain_int s =
     (let (neg, body) = strip_sign s
      in if body \<noteq> [] \<and> list_all is_digit body
         then Some (if neg then - int (read_nat body) else int (read_nat body))
         else None)"

definition py_int :: "string \<Rightarrow> int option" where
  "py_int s = (case drop_underscores (CHR 0x00) s of None \<Rightarrow> None | Some t \<Rightarrow> plain_int t)"

text \<open>A token without underscores as a decimal number: an optional sign, digits with an
  optional point (at least one digit before or after it), and an optional exponent
  \<open>e\<close> or \<open>E\<close> with its own optional sign. Its value is the exact decimal it
  denotes.\<close>

definition plain_float :: "string \<Rightarrow> real option" where
  "plain_float s =
     (let (neg, body) = strip_sign s;
          ip = takeWhile is_digit body;
          r1 = dropWhile is_digit body;
          (fp, r2) = (case r1 of
                        [] \<Rightarrow> ([], [])
                      | c # cs \<Rightarrow>
                          if c = CHR ''.'' then (takeWhile is_digit cs, dropWhile is_digit cs)
                          else ([], r1));
          mant = real (read_nat ip) + real (read_nat fp) / 10 ^ length fp;
          sg = (if neg then - 1 else 1)
      in if ip = [] \<and> fp = [] then None
         else case r2 of
                [] \<Rightarrow> Some (sg * mant)
              | e # es \<Rightarrow>
                  if e = CHR ''e'' \<or> e = CHR ''E'' then
                    (let (eneg, ds) = strip_sign es
                     in if ds \<noteq> [] \<and> list_all is_digit ds
                        then Some (sg * (if eneg then mant / 10 ^ read_nat ds
                                         else mant * 10 ^ read_nat ds))
                        else None)
                  else None)"

text \<open>What \<^verbatim>\<open>float(token)\<close> returns: a finite number, an infinity or not-a-number.
  The spellings \<^verbatim>\<open>inf\<close>, \<^verbatim>\<open>infinity\<close> and \<^verbatim>\<open>nan\<close> are read in any letter case and
  with an optional sign.\<close>

datatype py_float_value = Finite real | PosInf | NegInf | NaN

definition py_float :: "string \<Rightarrow> py_float_value option" where
  "py_float s =
     (case drop_underscores (CHR 0x00) s of
        None \<Rightarrow> None
      | Some t \<Rightarrow>
          let (neg, body) = strip_sign t
          in if lower body = ''inf'' \<or> lower body = ''infinity''
             then Some (if neg then NegInf else PosInf)
             else if lower body = ''nan'' then Some NaN
             else map_option Finite (plain_float t))"

section \<open>Paths and files\<close>

text \<open>
  \<^verbatim>\<open>os.path\<close> is modelled as on POSIX, with separator \<open>/\<close>. The file system is a map from
  path to the lines of the file (without their terminators, so a line holds no line
  feed and no carriage return); a path is in its domain
  exactly when \<^verbatim>\<open>os.path.exists\<close> holds. Directories and failing writes are not
  modelled.
\<close>

type_synonym fs = "string \<rightharpoonup> string list"

text \<open>\<^verbatim>\<open>str.rfind\<close> of one character: the last position of \<open>c\<close>, or \<open>-1\<close>.\<close>

definition rfind :: "char \<Rightarrow> string \<Rightarrow> int" where
  "rfind c p =
     (if c \<in> set p then int (length p) - 1 - int (length (takeWhile (\<lambda>x. x \<noteq> c) (rev p)))
      else - 1)"

text \<open>\<^verbatim>\<open>os.path.splitext(p)[0]\<close>: the path up to the last dot of the last component,
  unless that component has nothing but dots before it.\<close>

definition splitext_root :: "string \<Rightarrow> string" where
  "splitext_root p =
     (let sepIndex = rfind CHR ''/'' p; dotIndex = rfind CHR ''.'' p
      in if dotIndex > sepIndex \<and>
            list_ex (\<lambda>k. p ! k \<noteq> CHR ''.'') [nat (sepIndex + 1) ..< nat dotIndex]
         then take (nat dotIndex) p else p)"

text \<open>\<^verbatim>\<open>os.path.join(a, b)\<close> with two arguments.\<close>

definition join :: "string \<Rightarrow> string \<Rightarrow> string" where
  "join a b =
     (if b \<noteq> [] \<and> hd b = CHR ''/'' then b
      else if a = [] \<or> last a = CHR ''/'' then a @ b
      else a @ ''/'' @ b)"

text \<open>The path of the normalised label file of an image: \<^verbatim>\<open>labels_dir/<stem>.txt\<close>.\<close>

definition label_path :: "string \<Rightarrow> string \<Rightarrow> string" where
  "label_path d img_name = join d (splitext_root img_name @ ''.txt'')"

definition csv_path :: "string \<Rightarrow> string \<Rightarrow> string" where
  "csv_path d img_name = join d (splitext_root img_name @ ''_boxes.csv'')"

text \<open>\<^verbatim>\<open>xs[i]\<close> on a list: positions \<open>0 .. len-1\<close> read forwards, positions
  \<open>-len .. -1\<close> read from the back, every other position is an \<^verbatim>\<open>IndexError\<close>.\<close>

definition py_index :: "'a list \<Rightarrow> int \<Rightarrow> py_error + 'a" where
  "py_index xs i =
     (if 0 \<le> i \<and> i < int (length xs) then Inr (xs ! nat i)
      else if - int (length xs) \<le> i \<and> i < 0 then Inr (xs ! nat (int (length xs) + i))
      else Inl IndexError)"

section \<open>The resume index\<close>

text \<open>The loop of \<^verbatim>\<open>_find_resume_index\<close> over \<^verbatim>\<open>enumerate(self.images)\<close>, from
  position \<open>i\<close> on: the first position whose label file does not exist.\<close>

fun resume_scan :: "fs \<Rightarrow> string \<Rightarrow> nat \<Rightarrow> string list \<Rightarrow> nat option" where
  "resume_scan files d i [] = None"
| "resume_scan files d i (img_name # rest) =
     (if label_path d img_name \<notin> dom files then Some i
      else resume_scan files d (Suc i) rest)"

text \<open>With no labels directory, \<^verbatim>\<open>os.path.join(None, ...)\<close> raises on the first image.\<close>

definition find_resume_index :: "labeler \<Rightarrow> fs \<Rightarrow> py_error + int" where
  "find_resume_index s files =
     (if images s = [] then Inr (int (length (images s)) - 1)
      else case labels_dir s of
             None \<Rightarrow> Inl TypeError
           | Some d \<Rightarrow>
               (case resume_scan files d 0 (images s) of
                  Some i \<Rightarrow> Inr (int i)
                | None \<Rightarrow> Inr (int (length (images s)) - 1)))"

section \<open>The class registry\<close>

text \<open>\<^verbatim>\<open>d[k] = v\<close> on a dict kept in insertion order: an existing key keeps its place,
  a new key goes to the end.\<close>

definition dict_set :: "(int \<times> string) list \<Rightarrow> int \<Rightarrow> string \<Rightarrow> (int \<times> string) list" where
  "dict_set m k v =
     (if k \<in> fst ` set m then map (\<lambda>(k', v'). if k' = k then (k', v) else (k', v')) m
      else m @ [(k, v)])"

text \<open>\<^verbatim>\<open>_save_classes_file\<close>: the names in ascending order of their ids, one per line,
  written to \<^verbatim>\<open>classes.txt\<close> in the image folder. Without an image folder the path
  cannot be built and nothing is written.\<close>

definition save_classes_file :: "labeler \<Rightarrow> fs \<Rightarrow> fs \<times> py_error option" where
  "save_classes_file s files =
     (case image_folder s of
        None \<Rightarrow> (files, Some TypeError)
      | Some folder \<Rightarrow>
          (files(join folder ''classes.txt'' \<mapsto>
                   List.map_filter (map_of (class_names s)) (sort (map fst (class_names s)))),
           None))"

text \<open>\<^verbatim>\<open>_add_new_class\<close>; \<open>entry\<close> is the content of the text entry. The returned error,
  if any, is the exception that ends the handler; the fields assigned before it keep
  their new values. The closing \<^verbatim>\<open>update_title\<close> only redraws.\<close>

definition add_new_class :: "labeler \<Rightarrow> string \<Rightarrow> fs \<Rightarrow> labeler \<times> fs \<times> py_error option" where
  "add_new_class s entry files =
     (let name = strip entry
      in if name = [] then (s, files, None)
         else
           case find (\<lambda>(cid, cname). lower cname = lower name) (class_names s) of
             Some (cid, cname) \<Rightarrow> (s\<lparr> active_class := cid \<rparr>, files, None)
           | None \<Rightarrow>
               let next_id = (if class_names s \<noteq> [] then Max (fst ` set (class_names s)) + 1
                              else 0);
                   s' = s\<lparr> class_names := dict_set (class_names s) next_id name,
                           active_class := next_id \<rparr>;
                   (files', err) = save_classes_file s' files
               in (s', files', err))"

text \<open>The block of \<^verbatim>\<open>_init_folder\<close> that reads \<^verbatim>\<open>classes.txt\<close> (lines 221 to 231):
  line \<open>i\<close> names class \<open>i\<close>, blank lines are passed over.\<close>

definition load_classes_file :: "labeler \<Rightarrow> string \<Rightarrow> fs \<Rightarrow> labeler" where
  "load_classes_file s folder files =
     (case files (join folder ''classes.txt'') of
        None \<Rightarrow> s
      | Some file_lines \<Rightarrow>
          s\<lparr> class_names :=
               fold (\<lambda>(i, line) names.
                       let name = strip line
                       in if name \<noteq> [] then dict_set names (int i) name else names)
                    (enumerate 0 file_lines) [] \<rparr>)"

text \<open>The placeholder of \<^verbatim>\<open>_load_existing_labels\<close> for a class id that a label file
  uses and the registry lacks.\<close>

definition ensure_class :: "(int \<times> string) list \<Rightarrow> int \<Rightarrow> (int \<times> string) list" where
  "ensure_class names class_id =
     (if class_id \<in> fst ` set names then names
      else dict_set names class_id (''class_'' @ show_int class_id))"

section \<open>Saving and loading the boxes of an image\<close>

text \<open>One line of the normalised label file, as the f-string of \<^verbatim>\<open>save_boxes\<close> builds it.\<close>

definition yolo_line :: "int \<Rightarrow> int \<Rightarrow> box \<Rightarrow> string" where
  "yolo_line img_w img_h b =
     (case b of (x1, y1, x2, y2, cls) \<Rightarrow>
        let x_center = ((x1 + x2) / 2) / real_of_int img_w;
            y_center = ((y1 + y2) / 2) / real_of_int img_h;
            w = (x2 - x1) / real_of_int img_w;
            h = (y2 - y1) / real_of_int img_h
        in show_int cls @ '' '' @ fmt6 x_center @ '' '' @ fmt6 y_center @ '' '' @
           fmt6 w @ '' '' @ fmt6 h)"

text \<open>The loop that writes the label file. A division by a zero image dimension ends
  it; the lines written so far stay in the file.\<close>

fun yolo_lines :: "int \<Rightarrow> int \<Rightarrow> box list \<Rightarrow> string list \<times> py_error option" where
  "yolo_lines img_w img_h [] = ([], None)"
| "yolo_lines img_w img_h (b # bs) =
     (if img_w = 0 \<or> img_h = 0 then ([], Some ZeroDivisionError)
      else case yolo_lines img_w img_h bs of
             (ls, err) \<Rightarrow> (yolo_line img_w img_h b # ls, err))"

text \<open>
  \<^verbatim>\<open>save_boxes\<close>. Both files are opened for writing, so whatever they held is replaced.
  The text that \<^verbatim>\<open>csv.writer\<close> produces for the table of absolute coordinates is the
  parameter \<open>csv_table\<close>; the table is never read back. The returned error, if any, is
  the exception that leaves the function.
\<close>

definition save_boxes ::
  "((int \<times> string) list \<Rightarrow> box list \<Rightarrow> string list) \<Rightarrow> labeler \<Rightarrow> fs \<Rightarrow> fs \<times> py_error option" where
  "save_boxes csv_table s files =
     (if images s = [] then (files, None)
      else case labels_dir s of
        None \<Rightarrow> (files, None)
      | Some d \<Rightarrow>
          (case py_index (images s) (index s) of
             Inl e \<Rightarrow> (files, Some e)
           | Inr img_name \<Rightarrow>
               (case yolo_lines (img_width s) (img_height s) (boxes s) of
                  (ls, Some e) \<Rightarrow> (files(label_path d img_name \<mapsto> ls), Some e)
                | (ls, None) \<Rightarrow>
                    ((files(label_path d img_name \<mapsto> ls))
                       (csv_path d img_name \<mapsto> csv_table (class_names s) (boxes s)),
                     None))))"

text \<open>Lines 478 to 487 of \<^verbatim>\<open>_load_existing_labels\<close> for the five tokens of a line.
  \<^verbatim>\<open>int\<close> and \<^verbatim>\<open>float\<close> are applied in order and the first token that does not
  parse raises \<^verbatim>\<open>ValueError\<close>. The last equation is never reached from the loop,
  which passes five tokens.\<close>

fun parse_label :: "int \<Rightarrow> int \<Rightarrow> string list \<Rightarrow> py_error + box" where
  "parse_label img_w img_h [p0, p1, p2, p3, p4] =
     (case py_int p0 of None \<Rightarrow> Inl ValueError | Some class_id \<Rightarrow>
      case py_float p1 of None \<Rightarrow> Inl ValueError | Some v1 \<Rightarrow>
      case py_float p2 of None \<Rightarrow> Inl ValueError | Some v2 \<Rightarrow>
      case py_float p3 of None \<Rightarrow> Inl ValueError | Some v3 \<Rightarrow>
      case py_float p4 of None \<Rightarrow> Inl ValueError | Some v4 \<Rightarrow>
        (case (v1, v2, v3, v4) of
           (Finite f1, Finite f2, Finite f3, Finite f4) \<Rightarrow>
             let x_center = f1 * real_of_int img_w;
                 y_center = f2 * real_of_int img_h;
                 w = f3 * real_of_int img_w;
                 h = f4 * real_of_int img_h
             in Inr (x_center - w / 2, y_center - h / 2, x_center + w / 2,
                     y_center + h / 2, class_id)
         | _ \<Rightarrow> Inl NonFiniteFloat))"
| "parse_label img_w img_h parts = Inl ValueError"

text \<open>The loop over the lines of the label file, inside the \<^verbatim>\<open>try\<close>: the state is
  the box list and the registry. A \<^verbatim>\<open>ValueError\<close> ends the loop and is reported; what
  was loaded before it stays.\<close>

fun load_lines ::
  "int \<Rightarrow> int \<Rightarrow> string list \<Rightarrow> box list \<times> (int \<times> string) list \<Rightarrow>
     (box list \<times> (int \<times> string) list) \<times> py_error option" where
  "load_lines img_w img_h [] st = (st, None)"
| "load_lines img_w img_h (line # rest) (bs, names) =
     (let parts = split_ws (strip line)
      in if length parts \<noteq> 5 then load_lines img_w img_h rest (bs, names)
         else case parse_label img_w img_h parts of
                Inl e \<Rightarrow> ((bs, names), Some e)
              | Inr b \<Rightarrow>
                  load_lines img_w img_h rest
                    (bs @ [b], ensure_class names (snd (snd (snd (snd b))))))"

text \<open>\<^verbatim>\<open>_load_existing_labels\<close>. The \<^verbatim>\<open>ValueError\<close> of the loop is caught and only
  printed, so the function returns normally after it.\<close>

definition load_existing_labels :: "labeler \<Rightarrow> fs \<Rightarrow> py_error + labeler" where
  "load_existing_labels s files =
     (case py_index (images s) (index s) of
        Inl e \<Rightarrow> Inl e
      | Inr img_name \<Rightarrow>
          (case labels_dir s of
             None \<Rightarrow> Inl TypeError
           | Some d \<Rightarrow>
               (case files (label_path d img_name) of
                  None \<Rightarrow> Inr s
                | Some file_lines \<Rightarrow>
                    (case load_lines (img_width s) (img_height s) file_lines
                            (boxes s, class_names s) of
                       ((bs, names), warning) \<Rightarrow>
                         if warning = Some NonFiniteFloat then Inl NonFiniteFloat
                         else Inr (s\<lparr> boxes := bs, class_names := names \<rparr>)))))"

text \<open>Notions for speaking about the lines of a label file: a line has five tokens; the
  box its tokens stand for, if they parse to finite numbers; a line does not stop the
  load (it is passed over, or its tokens give a box); a line has no \<^verbatim>\<open>inf\<close> or
  \<^verbatim>\<open>nan\<close> coordinate; a string is one line of a file, holding no line feed and no
  carriage return, at which reading in text mode would break it.\<close>

definition five_tokens :: "string \<Rightarrow> bool" where
  "five_tokens line \<longleftrightarrow> length (split_ws (strip line)) = 5"

definition line_box :: "int \<Rightarrow> int \<Rightarrow> string \<Rightarrow> box option" where
  "line_box img_w img_h line =
     (case parse_label img_w img_h (split_ws (strip line)) of
        Inl e \<Rightarrow> None
      | Inr b \<Rightarrow> Some b)"

definition line_loads :: "int \<Rightarrow> int \<Rightarrow> string \<Rightarrow> bool" where
  "line_loads img_w img_h line \<longleftrightarrow>
     (five_tokens line \<longrightarrow> line_box img_w img_h line \<noteq> None)"

definition line_finite :: "int \<Rightarrow> int \<Rightarrow> string \<Rightarrow> bool" where
  "line_finite img_w img_h line \<longleftrightarrow>
     parse_label img_w img_h (split_ws (strip line)) \<noteq> Inl NonFiniteFloat"



text \<open>The number that a \<^verbatim>\<open>:.6f\<close> rendering of \<open>x\<close> denotes, and the closeness of a
  reloaded box to the saved one: the same class, and every coordinate within one
  millionth of the corresponding image dimension.\<close>

definition fmt6_value :: "real \<Rightarrow> real" where
  "fmt6_value x =
     (if x < 0 then - 1 else 1) * real (nat (round_half_even (\<bar>x\<bar> * 1000000))) / 1000000"

definition box_close :: "int \<Rightarrow> int \<Rightarrow> box \<Rightarrow> box \<Rightarrow> bool" where
  "box_close img_w img_h b b' =
     (case (b, b') of ((x1, y1, x2, y2, cls), (x1', y1', x2', y2', cls')) \<Rightarrow>
        cls' = cls \<and>
        \<bar>x1' - x1\<bar> \<le> real_of_int img_w / 1000000 \<and>
        \<bar>y1' - y1\<bar> \<le> real_of_int img_h / 1000000 \<and>
        \<bar>x2' - x2\<bar> \<le> real_of_int img_w / 1000000 \<and>
        \<bar>y2' - y2\<bar> \<le> real_of_int img_h / 1000000)"

section \<open>A concrete session\<close>

text \<open>A 200 by 400 image shown at scale 1 with a drag started at canvas point (10, 20).\<close>

definition demo_labeler :: labeler where
  "demo_labeler =
     init_labeler\<lparr> img_width := 200, img_height := 400,
                    start_x := Some 10, start_y := Some 20, zoom_index := 11 \<rparr>"

text \<open>A folder \<open>f\<close> with the images \<open>A.png\<close>, \<open>B.png\<close> and \<open>C.png\<close>, the second one
  loaded.\<close>

definition demo_session :: labeler where
  "demo_session =
     demo_labeler\<lparr> image_folder := Some ''f'', images := [''A.png'', ''B.png'', ''C.png''],
                     labels_dir := Some ''f/labels'', index := 1 \<rparr>"

text \<open>The same session with three classes, \<open>car\<close> at id 2.\<close>

definition demo_registry :: labeler where
  "demo_registry = demo_session\<lparr> class_names := [(0, ''object''), (1, ''dog''), (2, ''car'')] \<rparr>"

text \<open>A file system without any file.\<close>

definition empty_fs :: fs where
  "empty_fs = Map.empty"

text \<open>A stand-in for the text of the CSV table in concrete runs: the header row alone.\<close>

definition demo_csv_table :: "(int \<times> string) list \<Rightarrow> box list \<Rightarrow> string list" where
  "demo_csv_table names bs = [''class_id,class_name,x1,y1,x2,y2'']"

text \<open>The session after loading a label file for \<open>B.png\<close> whose only line uses class 5.\<close>

definition gap_session :: labeler where
  "gap_session =
     demo_session\<lparr> boxes := [(90, 180, 110, 220, 5)],
                     class_names := [(0, ''object''), (5, ''class_5'')] \<rparr>"




text \<open>The session with the box (10, 20, 110, 220) of class 0 drawn on \<open>B.png\<close>.\<close>

definition demo_drawn :: labeler where
  "demo_drawn = demo_session\<lparr> boxes := [(10, 20, 110, 220, 0)] \<rparr>"

section \<open>Properties of the box store\<close>

lemma drag_rect_bounds:
  assumes "drag_rect s sx sy ex ey = Inr (x1, y1, x2, y2)"
  shows "0 \<le> x1 \<and> x2 \<le> real_of_int (img_width s) \<and>
         0 \<le> y1 \<and> y2 \<le> real_of_int (img_height s)"
proof (cases "scale s = 0")
  case True
  with assms show ?thesis by (simp add: drag_rect_def canvas_to_image_def)
next
  case False
  with assms have
    "x1 = max 0 (min ((real_of_int sx - offset_x s) / scale s) ((real_of_int ex - offset_x s) / scale s))"
    "y1 = max 0 (min ((real_of_int sy - offset_y s) / scale s) ((real_of_int ey - offset_y s) / scale s))"
    "x2 = min (real_of_int (img_width s)) (max ((real_of_int sx - offset_x s) / scale s) ((real_of_int ex - offset_x s) / scale s))"
    "y2 = min (real_of_int (img_height s)) (max ((real_of_int sy - offset_y s) / scale s) ((real_of_int ey - offset_y s) / scale s))"
    by (simp_all add: drag_rect_def canvas_to_image_def)
  then show ?thesis by simp
qed

lemma on_button_release_cases:
  assumes "on_button_release s ex ey = Inr s'"
  shows "s' = s \<or> s' = s\<lparr> rect := None \<rparr> \<or>
         (\<exists>sx sy x1 y1 x2 y2. start_x s = Some sx \<and> start_y s = Some sy \<and>
            drag_rect s sx sy ex ey = Inr (x1, y1, x2, y2) \<and>
            \<not> (x2 - x1 < 3 \<or> y2 - y1 < 3) \<and>
            s' = s\<lparr> boxes := boxes s @ [(x1, y1, x2, y2, active_class s)], rect := None \<rparr>)"
proof (cases "start_x s")
  case None
  with assms show ?thesis by (simp add: on_button_release_def)
next
  case sx: (Some sx)
  show ?thesis
  proof (cases "start_y s")
    case None
    with assms sx show ?thesis by (simp add: on_button_release_def)
  next
    case sy: (Some sy)
    show ?thesis
    proof (cases "drag_rect s sx sy ex ey")
      case (Inl e)
      with assms sx sy show ?thesis by (simp add: on_button_release_def)
    next
      case (Inr r)
      obtain x1 y1 x2 y2 where r: "r = (x1, y1, x2, y2)" by (cases r) auto
      from assms sx sy Inr r show ?thesis
        by (simp add: on_button_release_def split: if_splits)
    qed
  qed
qed

lemma demo_release_far:
  "on_button_release demo_labeler 110 220 =
     Inr (demo_labeler\<lparr> boxes := [(10, 20, 110, 220, 0)], rect := None \<rparr>)"
  by (simp add: on_button_release_def drag_rect_def canvas_to_image_def
                demo_labeler_def init_labeler_def)

lemma demo_drag_rect_near: "drag_rect demo_labeler 10 20 12 220 = Inr (10, 20, 12, 220)"
  by (simp add: drag_rect_def canvas_to_image_def demo_labeler_def init_labeler_def)

text \<open>
  C2. Whenever a release of the mouse button appends a box, the appended box
  \<open>(x1, y1, x2, y2, c)\<close> satisfies \<open>0 \<le> x1 < x2 \<le> img_width\<close> and
  \<open>0 \<le> y1 < y2 \<le> img_height\<close>; a release appends at most one box, at the end, and
  leaves the earlier entries as they were.
\<close>

theorem commit_draw_within_image:
  assumes "on_button_release s ex ey = Inr s'"
  shows "boxes s' = boxes s \<or>
         (\<exists>x1 y1 x2 y2. boxes s' = boxes s @ [(x1, y1, x2, y2, active_class s)] \<and>
            0 \<le> x1 \<and> x1 < x2 \<and> x2 \<le> real_of_int (img_width s) \<and>
            0 \<le> y1 \<and> y1 < y2 \<and> y2 \<le> real_of_int (img_height s))"
proof -
  from on_button_release_cases[OF assms]
  consider "s' = s" | "s' = s\<lparr> rect := None \<rparr>"
    | sx sy x1 y1 x2 y2 where "drag_rect s sx sy ex ey = Inr (x1, y1, x2, y2)"
        "\<not> (x2 - x1 < 3 \<or> y2 - y1 < 3)"
        "s' = s\<lparr> boxes := boxes s @ [(x1, y1, x2, y2, active_class s)], rect := None \<rparr>"
    by blast
  then show ?thesis
  proof cases
    case 1 then show ?thesis by simp
  next
    case 2 then show ?thesis by simp
  next
    case 3
    from drag_rect_bounds[OF 3(1)] 3(2) have
      "0 \<le> x1 \<and> x1 < x2 \<and> x2 \<le> real_of_int (img_width s) \<and>
       0 \<le> y1 \<and> y1 < y2 \<and> y2 \<le> real_of_int (img_height s)" by linarith
    with 3(3) show ?thesis by simp
  qed
qed

text \<open>The drag from (10, 20) to (110, 220) on the 200 by 400 image stores the box
  (10, 20, 110, 220), which lies inside the image.\<close>

theorem commit_draw_within_image_witness:
  "\<exists>s'. on_button_release demo_labeler 110 220 = Inr s' \<and>
        boxes s' = [(10, 20, 110, 220, 0)] \<and>
        (boxes s' = boxes demo_labeler \<or>
         (\<exists>x1 y1 x2 y2.
            boxes s' = boxes demo_labeler @ [(x1, y1, x2, y2, active_class demo_labeler)] \<and>
            0 \<le> x1 \<and> x1 < x2 \<and> x2 \<le> real_of_int (img_width demo_labeler) \<and>
            0 \<le> y1 \<and> y1 < y2 \<and> y2 \<le> real_of_int (img_height demo_labeler)))"
  using commit_draw_within_image[OF demo_release_far] demo_release_far by simp

text \<open>
  C9. A drag whose clamped image-space rectangle is narrower or shorter than 3 pixels
  creates no box: the release returns normally and the box collection is the one
  from before.
\<close>

theorem tiny_drag_discarded:
  assumes "start_x s = Some sx" and "start_y s = Some sy"
    and "drag_rect s sx sy ex ey = Inr (x1, y1, x2, y2)"
    and "x2 - x1 < 3 \<or> y2 - y1 < 3"
  shows "\<exists>s'. on_button_release s ex ey = Inr s' \<and> boxes s' = boxes s"
  using assms by (auto simp add: on_button_release_def)

text \<open>A drag from (10, 20) to (12, 220) is 2 pixels wide and leaves no box.\<close>

theorem tiny_drag_discarded_witness:
  "start_x demo_labeler = Some 10 \<and> start_y demo_labeler = Some 20 \<and>
   drag_rect demo_labeler 10 20 12 220 = Inr (10, 20, 12, 220) \<and>
   ((12::real) - 10 < 3 \<or> (220::real) - 20 < 3) \<and>
   (\<exists>s'. on_button_release demo_labeler 12 220 = Inr s' \<and> boxes s' = boxes demo_labeler)"
proof -
  have sx: "start_x demo_labeler = Some 10" and sy: "start_y demo_labeler = Some 20"
    by (simp_all add: demo_labeler_def)
  have small: "(12::real) - 10 < 3 \<or> (220::real) - 20 < 3" by simp
  from tiny_drag_discarded[OF sx sy demo_drag_rect_near small] sx sy demo_drag_rect_near small
  show ?thesis by simp
qed

section \<open>Properties of the viewport transform\<close>

lemma length_zoom_levels: "length zoom_levels = 20"
  by (simp add: zoom_levels_def)

lemma zoom_levels_pos: "x \<in> set zoom_levels \<Longrightarrow> 0 < x"
  by (auto simp: zoom_levels_def)

lemma zoom_levels_nth_pos: "i < 20 \<Longrightarrow> 0 < zoom_levels ! i"
  using zoom_levels_pos[of "zoom_levels ! i"] length_zoom_levels by simp

lemma nearest_loop_fst:
  "fst (nearest_loop t xs best) = fst best \<or> fst (nearest_loop t xs best) \<in> fst ` set xs"
proof (induction xs arbitrary: best)
  case Nil
  show ?case by simp
next
  case (Cons p xs)
  obtain i level where p: "p = (i, level)" by (cases p)
  obtain b d where best: "best = (b, d)" by (cases best)
  show ?case
  proof (cases "\<bar>level - t\<bar> < d")
    case True
    with Cons.IH[of "(i, \<bar>level - t\<bar>)"] p best show ?thesis by (auto simp: Let_def)
  next
    case False
    with Cons.IH[of "(b, d)"] p best show ?thesis by (auto simp: Let_def)
  qed
qed

lemma nearest_zoom_index_in_range: "nearest_zoom_index t < length zoom_levels"
proof -
  let ?r = "nearest_loop t (enumerate 0 zoom_levels) (0, \<bar>zoom_levels ! 0 - t\<bar>)"
  have "fst ?r = 0 \<or> fst ?r \<in> fst ` set (enumerate 0 zoom_levels)"
    using nearest_loop_fst[of t "enumerate 0 zoom_levels" "(0, \<bar>zoom_levels ! 0 - t\<bar>)"] by simp
  moreover have "fst ` set (enumerate 0 zoom_levels) = {0..<length zoom_levels}"
    by (metis add_0 list.set_map map_fst_enumerate set_upt)
  ultimately show ?thesis
    by (auto simp: nearest_zoom_index_def length_zoom_levels)
qed

lemma zoom_step_cases:
  assumes "zoom_step s cx cy d = Inr s'"
  shows "scale s \<noteq> 0 \<and>
         (s' = s \<or>
          (\<exists>n. n = max 0 (min (zoom_index s + d) 19) \<and> n \<noteq> zoom_index s \<and>
             s' = s\<lparr> zoom_index := n, scale := zoom_levels ! nat n,
                    offset_x := real_of_int cx - (real_of_int cx - offset_x s) / scale s * (zoom_levels ! nat n),
                    offset_y := real_of_int cy - (real_of_int cy - offset_y s) / scale s * (zoom_levels ! nat n) \<rparr>))"
proof (cases "scale s = 0")
  case True
  with assms show ?thesis by (simp add: zoom_step_def canvas_to_image_def)
next
  case False
  with assms show ?thesis
    by (simp add: zoom_step_def canvas_to_image_def length_zoom_levels Let_def split: if_splits)
qed

lemma demo_zoom_in:
  "zoom_step demo_labeler 50 60 1 =
     Inr (demo_labeler\<lparr> zoom_index := 12, scale := 5 / 4,
                         offset_x := - 25 / 2, offset_y := - 15 \<rparr>)"
  by (simp add: zoom_step_def canvas_to_image_def demo_labeler_def init_labeler_def
                zoom_levels_def)

lemma demo_cursor_point:
  "canvas_to_image demo_labeler (real_of_int 50) (real_of_int 60) = Inr (50, 60)"
  by (simp add: canvas_to_image_def demo_labeler_def init_labeler_def)

text \<open>
  C4. A zoom step that changes the zoom index keeps the image point under the cursor
  fixed: with \<open>(ix, iy)\<close> the image point under \<open>(cx, cy)\<close> before the step, the new
  offsets are \<open>cursor - image_point * scale'\<close> per axis, the new transform maps
  \<open>(ix, iy)\<close> back to \<open>(cx, cy)\<close>, and the image point under the cursor after the
  step is \<open>(ix, iy)\<close> again.
\<close>

theorem zoom_step_anchored:
  assumes step: "zoom_step s cx cy d = Inr s'"
    and moved: "zoom_index s' \<noteq> zoom_index s"
    and pt: "canvas_to_image s (real_of_int cx) (real_of_int cy) = Inr (ix, iy)"
  shows "offset_x s' = real_of_int cx - ix * scale s' \<and>
         offset_y s' = real_of_int cy - iy * scale s' \<and>
         image_to_canvas s' ix iy = (real_of_int cx, real_of_int cy) \<and>
         canvas_to_image s' (real_of_int cx) (real_of_int cy) = Inr (ix, iy)"
proof -
  from zoom_step_cases[OF step] moved obtain n where
    nz: "scale s \<noteq> 0" and n: "n = max 0 (min (zoom_index s + d) 19)" and
    s': "s' = s\<lparr> zoom_index := n, scale := zoom_levels ! nat n,
                    offset_x := real_of_int cx - (real_of_int cx - offset_x s) / scale s * (zoom_levels ! nat n),
                    offset_y := real_of_int cy - (real_of_int cy - offset_y s) / scale s * (zoom_levels ! nat n) \<rparr>"
    by auto
  from pt nz have ix: "ix = (real_of_int cx - offset_x s) / scale s"
    and iy: "iy = (real_of_int cy - offset_y s) / scale s"
    by (simp_all add: canvas_to_image_def)
  from n have "nat n < 20" by auto
  then have pos: "zoom_levels ! nat n \<noteq> 0" using zoom_levels_nth_pos[of "nat n"] by simp
  have ox: "offset_x s' = real_of_int cx - ix * scale s'" using s' ix by simp
  have oy: "offset_y s' = real_of_int cy - iy * scale s'" using s' iy by simp
  have sc: "scale s' \<noteq> 0" using s' pos by simp
  have a: "image_to_canvas s' ix iy = (real_of_int cx, real_of_int cy)"
    using ox oy by (simp add: image_to_canvas_def)
  have b: "canvas_to_image s' (real_of_int cx) (real_of_int cy) = Inr (ix, iy)"
    using ox oy sc by (simp add: canvas_to_image_def)
  from ox oy a b show ?thesis by simp
qed

text \<open>Zooming in once at cursor (50, 60) from scale 1 moves to scale 1.25 with offsets
  (-12.5, -15), under which image point (50, 60) is at canvas point (50, 60) again.\<close>

theorem zoom_step_anchored_witness:
  "\<exists>s'. zoom_step demo_labeler 50 60 1 = Inr s' \<and>
        zoom_index s' \<noteq> zoom_index demo_labeler \<and>
        canvas_to_image demo_labeler (real_of_int 50) (real_of_int 60) = Inr (50, 60) \<and>
        scale s' = 5 / 4 \<and>
        offset_x s' = real_of_int 50 - 50 * scale s' \<and>
        offset_y s' = real_of_int 60 - 60 * scale s' \<and>
        image_to_canvas s' 50 60 = (real_of_int 50, real_of_int 60) \<and>
        canvas_to_image s' (real_of_int 50) (real_of_int 60) = Inr (50, 60)"
proof -
  let ?s' = "demo_labeler\<lparr> zoom_index := 12, scale := 5 / 4,
                           offset_x := - 25 / 2, offset_y := - 15 \<rparr>"
  have moved: "zoom_index ?s' \<noteq> zoom_index demo_labeler"
    by (simp add: demo_labeler_def)
  from zoom_step_anchored[OF demo_zoom_in moved demo_cursor_point]
       demo_zoom_in moved demo_cursor_point
  show ?thesis by simp
qed

text \<open>
  C6, as the code has it. The equality \<open>scale = zoom_levels[zoom_index]\<close> is
  established by every \<^verbatim>\<open>_fit_to_window\<close> that returns, and by every
  \<^verbatim>\<open>_zoom_step\<close> that changes the index; a zoom step at the boundary changes
  nothing, so it keeps the equality when it held before.
\<close>

theorem scale_matches_table_reestablished:
  "(fit_to_window s cw ch = Inr s1 \<longrightarrow> scale_matches_table s1) \<and>
   (zoom_step s cx cy d = Inr s2 \<longrightarrow>
      scale_matches_table s \<or> zoom_index s2 \<noteq> zoom_index s \<longrightarrow> scale_matches_table s2)"
proof (intro conjI impI)
  assume f: "fit_to_window s cw ch = Inr s1"
  have r: "nearest_zoom_index t < 20" for t
    using nearest_zoom_index_in_range[of t] by (simp add: length_zoom_levels)
  from f show "scale_matches_table s1"
    by (auto simp: fit_to_window_def Let_def scale_matches_table_def length_zoom_levels r
             split: if_splits)
next
  assume z: "zoom_step s cx cy d = Inr s2"
    and h: "scale_matches_table s \<or> zoom_index s2 \<noteq> zoom_index s"
  from zoom_step_cases[OF z] h show "scale_matches_table s2"
    by (auto simp: scale_matches_table_def length_zoom_levels)
qed

text \<open>Fitting the 200 by 400 image into a 1200 by 750 canvas, and zooming in once, both
  end with the scale found in the table at the zoom index.\<close>

theorem scale_matches_table_reestablished_witness:
  "(\<exists>s1. fit_to_window demo_labeler 1200 750 = Inr s1 \<and> scale_matches_table s1) \<and>
   (\<exists>s2. zoom_step demo_labeler 50 60 1 = Inr s2 \<and>
          zoom_index s2 \<noteq> zoom_index demo_labeler \<and> scale_matches_table s2)"
proof -
  obtain s1 where f: "fit_to_window demo_labeler 1200 750 = Inr s1"
    by (simp add: fit_to_window_def demo_labeler_def init_labeler_def Let_def)
  let ?s2 = "demo_labeler\<lparr> zoom_index := 12, scale := 5 / 4,
                           offset_x := - 25 / 2, offset_y := - 15 \<rparr>"
  have moved: "zoom_index ?s2 \<noteq> zoom_index demo_labeler"
    by (simp add: demo_labeler_def)
  from scale_matches_table_reestablished[of demo_labeler 1200 750 s1 50 60 1 ?s2]
       f demo_zoom_in moved
  show ?thesis by simp
qed

text \<open>
  C6, as the specification states it, fails in the state the constructor leaves:
  the scale is 1.0 while the zoom index is 0, whose table entry is 0.05.
\<close>

theorem init_scale_off_table:
  "scale init_labeler = 1 \<and> zoom_index init_labeler = 0 \<and>
   zoom_levels ! nat (zoom_index init_labeler) = 1 / 20 \<and>
   \<not> scale_matches_table init_labeler"
  by (simp add: scale_matches_table_def init_labeler_def zoom_levels_def)

section \<open>Properties of the resume index\<close>

lemma resume_scan_None:
  "resume_scan files d k xs = None \<longleftrightarrow> (\<forall>x\<in>set xs. label_path d x \<in> dom files)"
  by (induction xs arbitrary: k) auto

lemma resume_scan_Some:
  "resume_scan files d k xs = Some r \<Longrightarrow>
     k \<le> r \<and> r - k < length xs \<and> label_path d (xs ! (r - k)) \<notin> dom files \<and>
     (\<forall>j<r - k. label_path d (xs ! j) \<in> dom files)"
proof (induction xs arbitrary: k)
  case Nil
  then show ?case by simp
next
  case (Cons x xs)
  show ?case
  proof (cases "label_path d x \<in> dom files")
    case False
    with Cons.prems show ?thesis by simp
  next
    case True
    with Cons.prems have rec: "resume_scan files d (Suc k) xs = Some r" by simp
    from Cons.IH[OF rec] have ih: "Suc k \<le> r" "r - Suc k < length xs"
      "label_path d (xs ! (r - Suc k)) \<notin> dom files"
      "\<forall>j<r - Suc k. label_path d (xs ! j) \<in> dom files" by simp_all
    from ih(1) have eq: "r - k = Suc (r - Suc k)" by simp
    have "\<forall>j<r - k. label_path d ((x # xs) ! j) \<in> dom files"
    proof (intro allI impI)
      fix j assume "j < r - k"
      then show "label_path d ((x # xs) ! j) \<in> dom files"
        using True ih(4) eq by (cases j) auto
    qed
    with ih eq show ?thesis by simp
  qed
qed

lemma demo_label_paths:
  "label_path ''f/labels'' ''A.png'' = ''f/labels/A.txt''"
  "label_path ''f/labels'' ''B.png'' = ''f/labels/B.txt''"
  "label_path ''f/labels'' ''C.png'' = ''f/labels/C.txt''"
  by code_simp+

lemma demo_resume_only_A:
  "find_resume_index demo_session [''f/labels/A.txt'' \<mapsto> []] = Inr 1"
  by (simp add: find_resume_index_def demo_session_def demo_label_paths)

lemma demo_resume_all:
  "find_resume_index demo_session
     [''f/labels/A.txt'' \<mapsto> [], ''f/labels/B.txt'' \<mapsto> [], ''f/labels/C.txt'' \<mapsto> []] = Inr 2"
  by (simp add: find_resume_index_def demo_session_def demo_label_paths)

text \<open>
  C3. With the labels directory set, \<^verbatim>\<open>_find_resume_index\<close> returns the index of the
  first image whose label file \<open><stem>.txt\<close> does not exist (every image before it has
  one); when every image has its label file it returns \<open>length - 1\<close>, the last index.
\<close>

theorem find_resume_index_first_unlabeled:
  assumes "labels_dir s = Some d"
  shows "\<exists>r. find_resume_index s files = Inr r \<and>
          ((\<exists>i<length (images s). label_path d (images s ! i) \<notin> dom files) \<longrightarrow>
             0 \<le> r \<and> nat r < length (images s) \<and>
             label_path d (images s ! nat r) \<notin> dom files \<and>
             (\<forall>j<nat r. label_path d (images s ! j) \<in> dom files)) \<and>
          ((\<forall>i<length (images s). label_path d (images s ! i) \<in> dom files) \<longrightarrow>
             r = int (length (images s)) - 1)"
proof (cases "resume_scan files d 0 (images s)")
  case None
  then have all: "\<forall>x\<in>set (images s). label_path d x \<in> dom files"
    by (simp add: resume_scan_None)
  then have "\<forall>i<length (images s). label_path d (images s ! i) \<in> dom files" by simp
  moreover from None assms
  have "find_resume_index s files = Inr (int (length (images s)) - 1)"
    by (simp add: find_resume_index_def)
  ultimately show ?thesis by auto
next
  case (Some r)
  from resume_scan_Some[OF Some] have r: "r < length (images s)"
    "label_path d (images s ! r) \<notin> dom files"
    "\<forall>j<r. label_path d (images s ! j) \<in> dom files" by simp_all
  from r(1) have ne: "images s \<noteq> []" by auto
  from Some assms ne have "find_resume_index s files = Inr (int r)"
    by (simp add: find_resume_index_def)
  with r show ?thesis by auto
qed

text \<open>For the images \<open>A\<close>, \<open>B\<close>, \<open>C\<close>: with only \<open>A.txt\<close> present the resume index
  is 1, and with all three label files present it is 2.\<close>

theorem find_resume_index_first_unlabeled_witness:
  "labels_dir demo_session = Some ''f/labels'' \<and>
   find_resume_index demo_session [''f/labels/A.txt'' \<mapsto> []] = Inr 1 \<and>
   label_path ''f/labels'' (images demo_session ! 1) \<notin> dom [''f/labels/A.txt'' \<mapsto> []] \<and>
   label_path ''f/labels'' (images demo_session ! 0) \<in> dom [''f/labels/A.txt'' \<mapsto> []] \<and>
   find_resume_index demo_session
     [''f/labels/A.txt'' \<mapsto> [], ''f/labels/B.txt'' \<mapsto> [], ''f/labels/C.txt'' \<mapsto> []] = Inr 2"
proof -
  have d: "labels_dir demo_session = Some ''f/labels''"
    by (simp add: demo_session_def)
  have ex: "\<exists>i<length (images demo_session).
              label_path ''f/labels'' (images demo_session ! i) \<notin> dom [''f/labels/A.txt'' \<mapsto> []]"
    by (rule exI[of _ 1]) (simp add: demo_session_def demo_label_paths)
  from find_resume_index_first_unlabeled[OF d, of "[''f/labels/A.txt'' \<mapsto> []]"]
       ex demo_resume_only_A
  have "label_path ''f/labels'' (images demo_session ! 1) \<notin> dom [''f/labels/A.txt'' \<mapsto> []] \<and>
        label_path ''f/labels'' (images demo_session ! 0) \<in> dom [''f/labels/A.txt'' \<mapsto> []]"
    by simp
  with d demo_resume_only_A demo_resume_all show ?thesis by simp
qed

section \<open>Properties of the class registry\<close>

lemma Max_plus_one_fresh:
  fixes A :: "int set"
  assumes "finite A"
  shows "Max A + 1 \<notin> A"
proof
  assume "Max A + 1 \<in> A"
  with assms have "Max A + 1 \<le> Max A" by (rule Max_ge)
  then show False by simp
qed

lemma dict_set_fresh: "k \<notin> fst ` set m \<Longrightarrow> dict_set m k v = m @ [(k, v)]"
  by (simp add: dict_set_def)

lemma add_new_class_blank:
  "strip entry = [] \<Longrightarrow> add_new_class s entry files = (s, files, None)"
  by (simp add: add_new_class_def)

lemma add_new_class_duplicate:
  assumes "strip entry \<noteq> []"
    and "find (\<lambda>(cid, cname). lower cname = lower (strip entry)) (class_names s) = Some (cid, cname)"
  shows "add_new_class s entry files = (s\<lparr> active_class := cid \<rparr>, files, None)"
  using assms by (simp add: add_new_class_def Let_def)

lemma find_first_match:
  assumes "i < length xs" and "P (xs ! i)" and "\<forall>j<i. \<not> P (xs ! j)"
  shows "find P xs = Some (xs ! i)"
  using assms by (auto simp: find_Some_iff)

lemma add_new_class_first_match:
  assumes "strip entry \<noteq> []" and "i < length (class_names s)"
    and "lower (snd (class_names s ! i)) = lower (strip entry)"
    and "\<forall>j<i. lower (snd (class_names s ! j)) \<noteq> lower (strip entry)"
  shows "add_new_class s entry files =
           (s\<lparr> active_class := fst (class_names s ! i) \<rparr>, files, None)"
proof -
  let ?P = "\<lambda>(cid, cname). lower cname = lower (strip entry)"
  have "?P (class_names s ! i)" using assms(3) by (simp add: case_prod_unfold)
  moreover have "\<forall>j<i. \<not> ?P (class_names s ! j)"
    using assms(4) by (simp add: case_prod_unfold)
  ultimately have "find ?P (class_names s) = Some (class_names s ! i)"
    using assms(2) by (rule find_first_match[rotated])
  then have "find ?P (class_names s) =
               Some (fst (class_names s ! i), snd (class_names s ! i))"
    by simp
  from add_new_class_duplicate[OF assms(1) this] show ?thesis .
qed

lemma add_new_class_fresh:
  assumes "strip entry \<noteq> []"
    and "\<forall>p\<in>set (class_names s). lower (snd p) \<noteq> lower (strip entry)"
    and "add_new_class s entry files = (s', files', err)"
  shows "class_names s' = class_names s @ [(active_class s', strip entry)]"
    and "active_class s' =
           (if class_names s = [] then 0 else Max (fst ` set (class_names s)) + 1)"
    and "s' = s\<lparr> class_names := class_names s', active_class := active_class s' \<rparr>"
    and "(files', err) = save_classes_file s' files"
proof -
  let ?next = "if class_names s \<noteq> [] then Max (fst ` set (class_names s)) + 1 else 0"
  let ?s' = "s\<lparr> class_names := dict_set (class_names s) ?next (strip entry),
                  active_class := ?next \<rparr>"
  have none: "find (\<lambda>(cid, cname). lower cname = lower (strip entry)) (class_names s) = None"
    using assms(2) by (auto simp: find_None_iff)
  have fresh: "?next \<notin> fst ` set (class_names s)"
  proof (cases "class_names s = []")
    case True
    then show ?thesis by simp
  next
    case False
    then show ?thesis
      using Max_plus_one_fresh[of "fst ` set (class_names s)"] by simp
  qed
  obtain f e where sv: "save_classes_file ?s' files = (f, e)"
    by (cases "save_classes_file ?s' files")
  from assms(1) none sv have "add_new_class s entry files = (?s', f, e)"
    by (simp add: add_new_class_def Let_def)
  with assms(3) have s': "s' = ?s'" and fe: "files' = f" "err = e" by simp_all
  from sv s' fe have r: "s' = ?s'" "(files', err) = save_classes_file s' files"
    by simp_all
  from r(1) dict_set_fresh[OF fresh]
  show "class_names s' = class_names s @ [(active_class s', strip entry)]"
    and "active_class s' =
           (if class_names s = [] then 0 else Max (fst ` set (class_names s)) + 1)"
    and "s' = s\<lparr> class_names := class_names s', active_class := active_class s' \<rparr>"
    by simp_all
  from r(2) show "(files', err) = save_classes_file s' files" .
qed

lemma demo_strip:
  "strip '' Car '' = ''Car''" "strip ''Cat'' = ''Cat''" "strip ''  '' = []"
  by code_simp+

lemma demo_lower:
  "lower ''Car'' = ''car''" "lower ''car'' = ''car''" "lower ''dog'' = ''dog''"
  "lower ''object'' = ''object''" "lower ''Cat'' = ''cat''" "lower [] = []"
  by code_simp+

lemma demo_add_Car:
  "add_new_class demo_registry '' Car '' empty_fs =
     (demo_registry\<lparr> active_class := 2 \<rparr>, empty_fs, None)"
  by (simp add: add_new_class_def demo_registry_def demo_strip demo_lower)

lemma demo_add_Cat:
  "class_names (fst (add_new_class demo_registry ''Cat'' empty_fs)) =
     [(0, ''object''), (1, ''dog''), (2, ''car''), (3, ''Cat'')] \<and>
   active_class (fst (add_new_class demo_registry ''Cat'' empty_fs)) = 3"
  by (simp add: add_new_class_def demo_registry_def demo_strip demo_lower dict_set_def
                Let_def split: prod.splits)

text \<open>
  C8, as the code has it. An entry that is blank after trimming is ignored: the session
  and the files stay as they are. For any other entry, when the trimmed name equals an
  existing name up to letter case, the first such entry in registry order gives the
  active class and nothing else changes; when no existing name matches, the trimmed
  name is appended under the id \<open>max(existing ids) + 1\<close> (\<open>0\<close> for an empty registry),
  that id becomes the active class, nothing else in the session changes, and the class
  file is written.
\<close>

theorem add_new_class_registry:
  assumes "add_new_class s entry files = (s', files', err)"
  shows "(strip entry = [] \<longrightarrow> s' = s \<and> files' = files \<and> err = None) \<and>
         (strip entry \<noteq> [] \<longrightarrow>
            (\<forall>i<length (class_names s).
                lower (snd (class_names s ! i)) = lower (strip entry) \<and>
                (\<forall>j<i. lower (snd (class_names s ! j)) \<noteq> lower (strip entry)) \<longrightarrow>
                s' = s\<lparr> active_class := fst (class_names s ! i) \<rparr> \<and>
                files' = files \<and> err = None) \<and>
            ((\<forall>p\<in>set (class_names s). lower (snd p) \<noteq> lower (strip entry)) \<longrightarrow>
                class_names s' = class_names s @ [(active_class s', strip entry)] \<and>
                active_class s' =
                  (if class_names s = [] then 0 else Max (fst ` set (class_names s)) + 1) \<and>
                s' = s\<lparr> class_names := class_names s', active_class := active_class s' \<rparr> \<and>
                (files', err) = save_classes_file s' files))"
proof (intro conjI impI allI)
  assume "strip entry = []"
  from add_new_class_blank[OF this, of s files] assms
  show "s' = s" and "files' = files" and "err = None" by simp_all
next
  fix i
  assume ne: "strip entry \<noteq> []" and i: "i < length (class_names s)"
    and m: "lower (snd (class_names s ! i)) = lower (strip entry) \<and>
            (\<forall>j<i. lower (snd (class_names s ! j)) \<noteq> lower (strip entry))"
  from m have m1: "lower (snd (class_names s ! i)) = lower (strip entry)"
    and m2: "\<forall>j<i. lower (snd (class_names s ! j)) \<noteq> lower (strip entry)" by simp_all
  from add_new_class_first_match[OF ne i m1 m2, of files] assms
  show "s' = s\<lparr> active_class := fst (class_names s ! i) \<rparr>" and "files' = files"
    and "err = None" by simp_all
next
  assume ne: "strip entry \<noteq> []"
    and no: "\<forall>p\<in>set (class_names s). lower (snd p) \<noteq> lower (strip entry)"
  show "class_names s' = class_names s @ [(active_class s', strip entry)]"
    by (rule add_new_class_fresh(1)[OF ne no assms])
  show "active_class s' =
          (if class_names s = [] then 0 else Max (fst ` set (class_names s)) + 1)"
    by (rule add_new_class_fresh(2)[OF ne no assms])
  show "s' = s\<lparr> class_names := class_names s', active_class := active_class s' \<rparr>"
    by (rule add_new_class_fresh(3)[OF ne no assms])
  show "(files', err) = save_classes_file s' files"
    by (rule add_new_class_fresh(4)[OF ne no assms])
qed


text \<open>Adding \<open>Car\<close> while \<open>car\<close> is the third entry, with id 2, and neither
  \<open>object\<close> nor \<open>dog\<close> matches, makes 2 the active class and leaves the three entries
  as they are; adding \<open>Cat\<close> appends it under id 3.\<close>

theorem add_new_class_registry_witness:
  "add_new_class demo_registry '' Car '' empty_fs =
     (demo_registry\<lparr> active_class := 2 \<rparr>, empty_fs, None) \<and>
   strip '' Car '' \<noteq> [] \<and> (2::nat) < length (class_names demo_registry) \<and>
   class_names demo_registry ! 2 = (2, ''car'') \<and>
   lower (snd (class_names demo_registry ! 2)) = lower (strip '' Car '') \<and>
   lower (snd (class_names demo_registry ! 0)) \<noteq> lower (strip '' Car '') \<and>
   lower (snd (class_names demo_registry ! 1)) \<noteq> lower (strip '' Car '') \<and>
   demo_registry\<lparr> active_class := 2 \<rparr> =
     demo_registry\<lparr> active_class := fst (class_names demo_registry ! 2) \<rparr> \<and>
   class_names (demo_registry\<lparr> active_class := 2 \<rparr>) = class_names demo_registry \<and>
   length (class_names (demo_registry\<lparr> active_class := 2 \<rparr>)) = 3 \<and>
   class_names (fst (add_new_class demo_registry ''Cat'' empty_fs)) =
     [(0, ''object''), (1, ''dog''), (2, ''car''), (3, ''Cat'')]"
proof -
  have ne: "strip '' Car '' \<noteq> []" by (simp add: demo_strip)
  have len: "(2::nat) < length (class_names demo_registry)"
    and at2: "class_names demo_registry ! 2 = (2, ''car'')"
    by (simp_all add: demo_registry_def)
  have m: "lower (snd (class_names demo_registry ! 2)) = lower (strip '' Car '')"
    and n0: "lower (snd (class_names demo_registry ! 0)) \<noteq> lower (strip '' Car '')"
    and n1: "lower (snd (class_names demo_registry ! 1)) \<noteq> lower (strip '' Car '')"
    by (simp_all add: demo_registry_def demo_strip demo_lower)
  have before: "\<forall>j<2. lower (snd (class_names demo_registry ! j)) \<noteq> lower (strip '' Car '')"
  proof (intro allI impI)
    fix j :: nat assume "j < 2"
    then have "j = 0 \<or> j = 1" by auto
    with n0 n1 show "lower (snd (class_names demo_registry ! j)) \<noteq> lower (strip '' Car '')"
      by auto
  qed
  note first = add_new_class_registry[OF demo_add_Car, THEN conjunct2, THEN mp, OF ne,
                                      THEN conjunct1, rule_format, OF len conjI[OF m before]]
  from first
  have e: "demo_registry\<lparr> active_class := 2 \<rparr> =
             demo_registry\<lparr> active_class := fst (class_names demo_registry ! 2) \<rparr>"
    by (rule conjunct1)
  have same: "class_names (demo_registry\<lparr> active_class := 2 \<rparr>) = class_names demo_registry"
    by simp
  have l3: "length (class_names (demo_registry\<lparr> active_class := 2 \<rparr>)) = 3"
    by (simp add: demo_registry_def)
  from demo_add_Cat have cat: "class_names (fst (add_new_class demo_registry ''Cat'' empty_fs)) =
     [(0, ''object''), (1, ''dog''), (2, ''car''), (3, ''Cat'')]"
    by (rule conjunct1)
  from demo_add_Car ne len at2 m n0 n1 e same l3 cat show ?thesis
    by (intro conjI)
qed

text \<open>
  C8, as the specification states it, fails for a blank entry: its trimmed form is
  empty and matches none of the names \<open>object\<close>, \<open>dog\<close>, \<open>car\<close>, yet nothing is
  inserted and the active class stays.
\<close>

theorem add_blank_name_ignored:
  "strip ''  '' = [] \<and>
   lower ''object'' \<noteq> lower (strip ''  '') \<and>
   lower ''dog'' \<noteq> lower (strip ''  '') \<and>
   lower ''car'' \<noteq> lower (strip ''  '') \<and>
   class_names (fst (add_new_class demo_registry ''  '' empty_fs)) =
     [(0, ''object''), (1, ''dog''), (2, ''car'')] \<and>
   active_class (fst (add_new_class demo_registry ''  '' empty_fs)) =
     active_class demo_registry"
  by (simp add: add_new_class_def demo_strip demo_lower demo_registry_def)

section \<open>Properties of saving\<close>

lemma last_join: "b \<noteq> [] \<Longrightarrow> last (join a b) = last b"
  by (simp add: join_def)

lemma csv_path_neq_label_path: "csv_path d i \<noteq> label_path d j"
proof
  assume eq: "csv_path d i = label_path d j"
  have "last (csv_path d i) = CHR ''v''"
    by (simp add: csv_path_def last_join)
  moreover have "last (label_path d j) = CHR ''t''"
    by (simp add: label_path_def last_join)
  ultimately show False using eq by simp
qed

lemma save_boxes_label_file:
  assumes "images s \<noteq> []" and "labels_dir s = Some d"
    and "py_index (images s) (index s) = Inr img_name"
  shows "fst (save_boxes csv_table s files) (label_path d img_name) =
           Some (fst (yolo_lines (img_width s) (img_height s) (boxes s)))"
proof (cases "yolo_lines (img_width s) (img_height s) (boxes s)")
  case (Pair ls err)
  show ?thesis
  proof (cases err)
    case None
    with Pair assms show ?thesis
      using csv_path_neq_label_path[of d img_name img_name]
      by (simp add: save_boxes_def)
  next
    case (Some e)
    with Pair assms show ?thesis by (simp add: save_boxes_def)
  qed
qed

lemma demo_py_index: "py_index (images demo_session) (index demo_session) = Inr ''B.png''"
  by (simp add: py_index_def demo_session_def)

text \<open>
  C10. With a non-empty image list, the labels directory set and a valid current
  index, \<^verbatim>\<open>save_boxes\<close> replaces the label file of the current image by the lines of
  the current boxes, whatever the file held and also when an exception ends the
  function; with no boxes the file is created empty. Afterwards the file exists and
  the resume scan does not stop at the current image as unlabeled.
\<close>

theorem save_boxes_creates_label_file:
  assumes "images s \<noteq> []" and "labels_dir s = Some d"
    and "py_index (images s) (index s) = Inr img_name"
  shows "fst (save_boxes csv_table s files) (label_path d img_name) =
           Some (fst (yolo_lines (img_width s) (img_height s) (boxes s))) \<and>
         (boxes s = [] \<longrightarrow>
            fst (save_boxes csv_table s files) (label_path d img_name) = Some []) \<and>
         label_path d img_name \<in> dom (fst (save_boxes csv_table s files)) \<and>
         (\<forall>i. resume_scan (fst (save_boxes csv_table s files)) d 0 (images s) = Some i \<longrightarrow>
              label_path d (images s ! i) \<noteq> label_path d img_name)"
proof -
  let ?files' = "fst (save_boxes csv_table s files)"
  have a: "?files' (label_path d img_name) =
             Some (fst (yolo_lines (img_width s) (img_height s) (boxes s)))"
    by (rule save_boxes_label_file[OF assms])
  then have b: "boxes s = [] \<longrightarrow> ?files' (label_path d img_name) = Some []"
    by simp
  from a have c: "label_path d img_name \<in> dom ?files'" by blast
  have e: "\<forall>i. resume_scan ?files' d 0 (images s) = Some i \<longrightarrow>
              label_path d (images s ! i) \<noteq> label_path d img_name"
  proof (intro allI impI)
    fix i assume "resume_scan ?files' d 0 (images s) = Some i"
    from resume_scan_Some[OF this] have "label_path d (images s ! i) \<notin> dom ?files'"
      by simp
    with c show "label_path d (images s ! i) \<noteq> label_path d img_name" by auto
  qed
  from a b c e show ?thesis by blast
qed

text \<open>Saving the session with image \<open>B.png\<close> loaded and no box, while only \<open>A.txt\<close>
  exists, creates an empty \<open>B.txt\<close>; a resume scan afterwards stops at \<open>C.png\<close>.\<close>

theorem save_boxes_creates_label_file_witness:
  "images demo_session \<noteq> [] \<and> labels_dir demo_session = Some ''f/labels'' \<and>
   py_index (images demo_session) (index demo_session) = Inr ''B.png'' \<and>
   boxes demo_session = [] \<and>
   fst (save_boxes demo_csv_table demo_session [''f/labels/A.txt'' \<mapsto> []])
     (label_path ''f/labels'' ''B.png'') = Some [] \<and>
   label_path ''f/labels'' ''B.png'' \<in>
     dom (fst (save_boxes demo_csv_table demo_session [''f/labels/A.txt'' \<mapsto> []])) \<and>
   find_resume_index demo_session
     (fst (save_boxes demo_csv_table demo_session [''f/labels/A.txt'' \<mapsto> []])) = Inr 2"
proof -
  have i: "images demo_session \<noteq> []" and d: "labels_dir demo_session = Some ''f/labels''"
    and b: "boxes demo_session = []"
    by (simp_all add: demo_session_def demo_labeler_def init_labeler_def)
  have csv: "csv_path ''f/labels'' ''B.png'' = ''f/labels/B_boxes.csv''" by code_simp
  have r: "find_resume_index demo_session
     (fst (save_boxes demo_csv_table demo_session [''f/labels/A.txt'' \<mapsto> []])) = Inr 2"
    using demo_py_index
    by (simp add: find_resume_index_def save_boxes_def demo_session_def demo_labeler_def
                  init_labeler_def demo_label_paths csv)
  from save_boxes_creates_label_file[OF i d demo_py_index, of demo_csv_table
         "[''f/labels/A.txt'' \<mapsto> []]"] i d b demo_py_index r
  show ?thesis by simp
qed

section \<open>The class file across a restart\<close>

lemma demo_load_class_5:
  "load_lines 200 400 [''5 0.5 0.5 0.1 0.1''] ([], [(0, ''object'')]) =
     (([(90, 180, 110, 220, 5)], [(0, ''object''), (5, ''class_5'')]), None)"
  by code_simp

lemma demo_classes_path: "join ''f'' ''classes.txt'' = ''f/classes.txt''"
  by code_simp

lemma demo_strip_names:
  "strip ''cat'' = ''cat''" "strip ''object'' = ''object''" "strip ''class_5'' = ''class_5''"
  by code_simp+

lemma demo_lower_names:
  "lower ''cat'' = ''cat''" "lower ''class_5'' = ''class_5''"
  by code_simp+

lemma demo_add_cat_after_gap:
  "add_new_class gap_session ''cat'' empty_fs =
     (gap_session\<lparr> class_names := [(0, ''object''), (5, ''class_5''), (6, ''cat'')],
                    active_class := 6 \<rparr>,
      empty_fs(''f/classes.txt'' \<mapsto> [''object'', ''class_5'', ''cat'']), None)"
  by (simp add: add_new_class_def save_classes_file_def gap_session_def demo_session_def
                demo_strip_names demo_lower_names demo_lower dict_set_def demo_classes_path
                List.map_filter_simps Let_def)

text \<open>When the ids are exactly \<open>0 .. n-1\<close> in registry order and every name is
  non-empty and free of surrounding whitespace, the written file read back gives the
  registry again.\<close>

lemma map_filter_map_of_sub:
  assumes "distinct (map fst m)"
  shows "set ps \<subseteq> set m \<Longrightarrow> List.map_filter (map_of m) (map fst ps) = map snd ps"
proof (induction ps)
  case Nil
  show ?case by (simp add: List.map_filter_simps)
next
  case (Cons p ps)
  from Cons.prems have "(fst p, snd p) \<in> set m" by simp
  with assms have "map_of m (fst p) = Some (snd p)" by (rule map_of_is_SomeI)
  with Cons show ?case by (simp add: List.map_filter_simps)
qed

lemma map_filter_map_of_keys:
  "distinct (map fst m) \<Longrightarrow> List.map_filter (map_of m) (map fst m) = map snd m"
  by (rule map_filter_map_of_sub) simp_all

lemma read_names_fold:
  assumes "\<forall>n\<in>set ns. strip n = n \<and> n \<noteq> []"
    and "\<forall>p\<in>set acc. fst p < int k"
  shows "fold (\<lambda>(i, line) names.
                 let name = strip line
                 in if name \<noteq> [] then dict_set names (int i) name else names)
              (enumerate k ns) acc
         = acc @ map (\<lambda>(i, n). (int i, n)) (enumerate k ns)"
  using assms
proof (induction ns arbitrary: k acc)
  case Nil
  show ?case by simp
next
  case (Cons n ns)
  from Cons.prems(1) have n: "strip n = n" "n \<noteq> []" by simp_all
  from Cons.prems(2) have fresh: "int k \<notin> fst ` set acc" by force
  have acc': "\<forall>p\<in>set (acc @ [(int k, n)]). fst p < int (Suc k)"
    using Cons.prems(2) by force
  from Cons.prems(1) have rest: "\<forall>n\<in>set ns. strip n = n \<and> n \<noteq> []" by simp
  from Cons.IH[OF rest acc'] n fresh show ?case
    by (simp add: dict_set_def)
qed

lemma classes_file_round_trip_no_gaps:
  assumes "image_folder s = Some folder"
    and "map fst (class_names s) = map int [0..<length (class_names s)]"
    and "\<forall>p\<in>set (class_names s). strip (snd p) = snd p \<and> snd p \<noteq> []"
  shows "class_names (load_classes_file t folder (fst (save_classes_file s files))) =
           class_names s"
proof -
  let ?cn = "class_names s"
  have sorted: "sort (map fst ?cn) = map fst ?cn"
    unfolding assms(2)
    by (rule sort_key_id_if_sorted)
       (simp add: sorted_map strict_sorted_iff[symmetric] sorted_wrt_map sorted_wrt_upt)
  have dist: "distinct (map fst ?cn)"
    unfolding assms(2) by (simp add: distinct_map inj_on_def)
  have written: "fst (save_classes_file s files) (join folder ''classes.txt'') =
                   Some (map snd ?cn)"
    using assms(1) by (simp add: save_classes_file_def sorted map_filter_map_of_keys[OF dist])
  have names: "\<forall>n\<in>set (map snd ?cn). strip n = n \<and> n \<noteq> []"
    using assms(3) by auto
  have "map (\<lambda>(i, n). (int i, n)) (enumerate 0 (map snd ?cn)) = ?cn"
  proof (rule nth_equalityI)
    show "length (map (\<lambda>(i, n). (int i, n)) (enumerate 0 (map snd ?cn))) = length ?cn"
      by simp
  next
    fix i assume "i < length (map (\<lambda>(i, n). (int i, n)) (enumerate 0 (map snd ?cn)))"
    then have i: "i < length ?cn" by simp
    then have "fst (?cn ! i) = int i"
      using arg_cong[OF assms(2), of "\<lambda>xs. xs ! i"] by simp
    with i show "map (\<lambda>(i, n). (int i, n)) (enumerate 0 (map snd ?cn)) ! i = ?cn ! i"
      by (simp add: nth_enumerate_eq prod_eq_iff)
  qed
  with read_names_fold[OF names, of "[]" 0] written show ?thesis
    by (simp add: load_classes_file_def)
qed

text \<open>
  C5 at a registry with a gap. Loading a label file that uses class 5 gives the
  registry \<open>{0: object, 5: class_5}\<close>; adding \<open>cat\<close> gives it id 6 and writes
  \<^verbatim>\<open>classes.txt\<close> with the three names on lines 0, 1 and 2; reading that file back
  at folder-open time yields \<open>{0: object, 1: class_5, 2: cat}\<close>, so ids 5 and 6 are
  not recovered.
\<close>

theorem classes_file_renumbers_after_gap:
  "load_existing_labels demo_session [''f/labels/B.txt'' \<mapsto> [''5 0.5 0.5 0.1 0.1'']] =
     Inr gap_session \<and>
   class_names gap_session = [(0, ''object''), (5, ''class_5'')] \<and>
   class_names (fst (add_new_class gap_session ''cat'' empty_fs)) =
     [(0, ''object''), (5, ''class_5''), (6, ''cat'')] \<and>
   fst (snd (add_new_class gap_session ''cat'' empty_fs)) ''f/classes.txt'' =
     Some [''object'', ''class_5'', ''cat''] \<and>
   class_names (load_classes_file (fst (add_new_class gap_session ''cat'' empty_fs)) ''f''
                  (fst (snd (add_new_class gap_session ''cat'' empty_fs)))) =
     [(0, ''object''), (1, ''class_5''), (2, ''cat'')]"
proof -
  have l: "load_existing_labels demo_session
             [''f/labels/B.txt'' \<mapsto> [''5 0.5 0.5 0.1 0.1'']] = Inr gap_session"
    using demo_load_class_5
    by (simp add: load_existing_labels_def py_index_def demo_session_def demo_labeler_def
                  init_labeler_def DEFAULT_CLASS_NAMES_def demo_label_paths gap_session_def)
  have g: "class_names gap_session = [(0, ''object''), (5, ''class_5'')]"
    by (simp add: gap_session_def)
  have r: "class_names (load_classes_file (fst (add_new_class gap_session ''cat'' empty_fs)) ''f''
                  (fst (snd (add_new_class gap_session ''cat'' empty_fs)))) =
     [(0, ''object''), (1, ''class_5''), (2, ''cat'')]"
    by (simp add: demo_add_cat_after_gap load_classes_file_def demo_classes_path
                  enumerate_simps demo_strip_names dict_set_def)
  from l g r show ?thesis by (simp add: demo_add_cat_after_gap)
qed

section \<open>Properties of loading\<close>

lemma load_lines_boxes:
  assumes "\<forall>l\<in>set ls. line_finite w h l"
  shows "fst (fst (load_lines w h ls (bs, names))) =
           bs @ List.map_filter (line_box w h)
                  (filter five_tokens (takeWhile (line_loads w h) ls)) \<and>
         snd (load_lines w h ls (bs, names)) \<noteq> Some NonFiniteFloat"
  using assms
proof (induction ls arbitrary: bs names)
  case Nil
  show ?case by (simp add: List.map_filter_simps)
next
  case (Cons l ls)
  let ?kept = "filter five_tokens (takeWhile (line_loads w h) ls)"
  from Cons.prems have fin: "line_finite w h l" and rest: "\<forall>l\<in>set ls. line_finite w h l"
    by simp_all
  show ?case
  proof (cases "five_tokens l")
    case False
    then have step: "load_lines w h (l # ls) (bs, names) = load_lines w h ls (bs, names)"
      by (simp add: five_tokens_def)
    from False have "line_loads w h l" by (simp add: line_loads_def)
    with False have "filter five_tokens (takeWhile (line_loads w h) (l # ls)) = ?kept"
      by simp
    with step Cons.IH[OF rest, of bs names] show ?thesis by simp
  next
    case five: True
    show ?thesis
    proof (cases "parse_label w h (split_ws (strip l))")
      case (Inl e)
      with fin have e: "e \<noteq> NonFiniteFloat" by (auto simp: line_finite_def)
      from Inl five have step: "load_lines w h (l # ls) (bs, names) = ((bs, names), Some e)"
        by (simp add: five_tokens_def)
      from Inl five have "\<not> line_loads w h l" by (simp add: line_loads_def line_box_def)
      then have "filter five_tokens (takeWhile (line_loads w h) (l # ls)) = []" by simp
      with step e show ?thesis by (simp add: List.map_filter_simps)
    next
      case (Inr b)
      with five have step:
        "load_lines w h (l # ls) (bs, names) =
           load_lines w h ls (bs @ [b], ensure_class names (snd (snd (snd (snd b)))))"
        by (simp add: five_tokens_def)
      from Inr have lb: "line_box w h l = Some b" by (simp add: line_box_def)
      then have "line_loads w h l" by (simp add: line_loads_def)
      with five have "filter five_tokens (takeWhile (line_loads w h) (l # ls)) = l # ?kept"
        by simp
      then have "List.map_filter (line_box w h)
                   (filter five_tokens (takeWhile (line_loads w h) (l # ls))) =
                 b # List.map_filter (line_box w h) ?kept"
        using lb by (simp add: List.map_filter_simps)
      with step Cons.IH[OF rest, of "bs @ [b]" "ensure_class names (snd (snd (snd (snd b))))"]
      show ?thesis by simp
    qed
  qed
qed

lemma load_existing_labels_boxes:
  assumes "py_index (images s) (index s) = Inr img_name" and "labels_dir s = Some d"
    and "files (label_path d img_name) = Some file_lines"
    and "snd (load_lines (img_width s) (img_height s) file_lines (boxes s, class_names s))
           \<noteq> Some NonFiniteFloat"
  shows "\<exists>s'. load_existing_labels s files = Inr s' \<and>
           boxes s' = fst (fst (load_lines (img_width s) (img_height s) file_lines
                                  (boxes s, class_names s)))"
proof (cases "load_lines (img_width s) (img_height s) file_lines (boxes s, class_names s)")
  case (Pair st warning)
  obtain bs names where st: "st = (bs, names)" by (cases st)
  from Pair assms(4) have "warning \<noteq> Some NonFiniteFloat" by simp
  with Pair st assms(1-3) show ?thesis
    by (simp add: load_existing_labels_def)
qed






section \<open>Properties of rendering and reading numbers\<close>

lemma is_space_code:
  "is_space c \<Longrightarrow> (of_char c :: nat) \<le> 32 \<or> (of_char c :: nat) = 133 \<or> (of_char c :: nat) = 160"
  by (auto simp: is_space_def)

lemma of_char_digit_char: "d < 10 \<Longrightarrow> (of_char (digit_char d) :: nat) = 48 + d"
  by (simp add: digit_char_def)

lemma is_digit_not_special:
  assumes "is_digit c"
  shows "\<not> is_space c" and "c \<noteq> CHR ''-''" and "c \<noteq> CHR ''+''" and "c \<noteq> CHR ''.''"
    and "c \<noteq> CHR ''_''" and "lower_char c = c" and "c \<noteq> CHR ''i''" and "c \<noteq> CHR ''n''"
proof -
  from assms have r: "48 \<le> (of_char c :: nat)" "(of_char c :: nat) \<le> 57"
    by (simp_all add: is_digit_def)
  show "\<not> is_space c" using r is_space_code[of c] by auto
  show "c \<noteq> CHR ''-''" using r by auto
  show "c \<noteq> CHR ''+''" using r by auto
  show "c \<noteq> CHR ''.''" using r by auto
  show "c \<noteq> CHR ''_''" using r by auto
  show "lower_char c = c" using r by (simp add: lower_char_def)
  show "c \<noteq> CHR ''i''" using r by auto
  show "c \<noteq> CHR ''n''" using r by auto
qed

lemma digit_char_props:
  assumes "d < 10"
  shows "is_digit (digit_char d)" and "digit_val (digit_char d) = d"
  using assms by (simp_all add: is_digit_def digit_val_def of_char_digit_char)

lemma show_nat_digits: "list_all is_digit (show_nat n)"
proof (induction n rule: show_nat.induct)
  case (1 n)
  show ?case
  proof (cases "n < 10")
    case True
    then show ?thesis by (subst show_nat.simps) (simp add: digit_char_props)
  next
    case False
    with 1 have "list_all is_digit (show_nat (n div 10))" by simp
    with False show ?thesis
      by (subst show_nat.simps) (simp add: digit_char_props)
  qed
qed

lemma show_nat_nonempty: "show_nat n \<noteq> []"
  by (subst show_nat.simps) simp

lemma read_nat_snoc: "read_nat (ds @ [c]) = 10 * read_nat ds + digit_val c"
  by (simp add: read_nat_def)

lemma read_show_nat: "read_nat (show_nat n) = n"
proof (induction n rule: show_nat.induct)
  case (1 n)
  show ?case
  proof (cases "n < 10")
    case True
    then show ?thesis
      by (subst show_nat.simps) (simp add: read_nat_def digit_char_props)
  next
    case False
    with 1 have "read_nat (show_nat (n div 10)) = n div 10" by simp
    with False show ?thesis
      by (subst show_nat.simps) (simp add: read_nat_snoc digit_char_props)
  qed
qed

lemma length_show_nat: "0 < k \<Longrightarrow> n < 10 ^ k \<Longrightarrow> length (show_nat n) \<le> k"
proof (induction n arbitrary: k rule: show_nat.induct)
  case (1 n)
  show ?case
  proof (cases "n < 10")
    case True
    with 1(2) show ?thesis by (subst show_nat.simps) simp
  next
    case False
    with 1(3) have k: "1 < k" by (cases "k = 1") (use 1(2) in auto)
    then obtain j where j: "k = Suc j" "0 < j" by (cases k) auto
    with 1(3) have "n div 10 < 10 ^ j" by (simp add: less_mult_imp_div_less)
    from 1(1)[OF False j(2) this] have "length (show_nat (n div 10)) \<le> j" .
    with False j show ?thesis by (subst show_nat.simps) simp
  qed
qed

lemma read_nat_zeros: "read_nat (replicate k CHR ''0'' @ ds) = read_nat ds"
proof -
  have "foldl (\<lambda>a c. 10 * a + digit_val c) 0 (replicate k CHR ''0'') = 0"
    by (induction k) (simp_all add: digit_val_def)
  then show ?thesis by (simp add: read_nat_def)
qed

lemma strip_sign_digit: "is_digit c \<Longrightarrow> strip_sign (c # cs) = (False, c # cs)"
  by (simp add: strip_sign_def is_digit_not_special)

lemma show_nat_Cons: "\<exists>c cs. show_nat n = c # cs \<and> is_digit c"
proof -
  obtain c cs where e: "show_nat n = c # cs"
    using show_nat_nonempty[of n] by (cases "show_nat n") auto
  with show_nat_digits[of n] have "is_digit c" by simp
  with e show ?thesis by blast
qed

lemma strip_sign_show_nat: "strip_sign (show_nat n @ rest) = (False, show_nat n @ rest)"
proof -
  from show_nat_Cons[of n] obtain c cs where "show_nat n = c # cs" "is_digit c" by blast
  then show ?thesis by (simp add: strip_sign_digit)
qed

lemma drop_underscores_id:
  "CHR ''_'' \<notin> set s \<Longrightarrow> prev \<noteq> CHR ''_'' \<Longrightarrow> drop_underscores prev s = Some s"
  by (induction s arbitrary: prev) auto

lemma show_nat_no_underscore: "CHR ''_'' \<notin> set (show_nat n)"
  using show_nat_digits[of n] is_digit_not_special(5) by (auto simp: list_all_iff)

lemma show_int_no_underscore: "CHR ''_'' \<notin> set (show_int i)"
  by (simp add: show_int_def show_nat_no_underscore)

lemma plain_int_show_int: "plain_int (show_int i) = Some i"
proof (cases "i < 0")
  case True
  then have "strip_sign (show_int i) = (True, show_nat (nat (- i)))"
    by (simp add: show_int_def strip_sign_def)
  with True show ?thesis
    by (simp add: plain_int_def show_nat_nonempty show_nat_digits read_show_nat)
next
  case False
  then have "strip_sign (show_int i) = (False, show_nat (nat i))"
    using strip_sign_show_nat[of "nat i" "[]"] by (simp add: show_int_def)
  with False show ?thesis
    by (simp add: plain_int_def show_nat_nonempty show_nat_digits read_show_nat)
qed

lemma py_int_show_int: "py_int (show_int i) = Some i"
  by (simp add: py_int_def drop_underscores_id show_int_no_underscore plain_int_show_int)

lemma round_half_even_error: "\<bar>real_of_int (round_half_even r) - r\<bar> \<le> 1 / 2"
proof -
  have "real_of_int \<lfloor>r\<rfloor> \<le> r" and "r < real_of_int \<lfloor>r\<rfloor> + 1" by linarith+
  then show ?thesis
    by (auto simp: round_half_even_def Let_def)
qed

lemma round_half_even_nonneg: "0 \<le> r \<Longrightarrow> 0 \<le> round_half_even r"
proof -
  assume "0 \<le> r"
  then have "0 \<le> \<lfloor>r\<rfloor>" by simp
  then show ?thesis by (auto simp: round_half_even_def Let_def)
qed

lemma fmt6_value_error: "\<bar>fmt6_value x - x\<bar> \<le> 1 / 2000000"
proof -
  let ?m = "round_half_even (\<bar>x\<bar> * 1000000)"
  have nn: "0 \<le> ?m" by (rule round_half_even_nonneg) simp
  then have m: "real (nat ?m) = real_of_int ?m" by simp
  from round_half_even_error[of "\<bar>x\<bar> * 1000000"]
  have e: "\<bar>real_of_int ?m - \<bar>x\<bar> * 1000000\<bar> \<le> 1 / 2" .
  show ?thesis
  proof (cases "x < 0")
    case True
    with e m show ?thesis by (simp add: fmt6_value_def abs_if split: if_splits) linarith?
  next
    case False
    with e m show ?thesis by (simp add: fmt6_value_def abs_if split: if_splits) linarith?
  qed
qed

lemma takeWhile_token:
  "list_all P xs \<Longrightarrow> \<not> P y \<Longrightarrow> takeWhile P (xs @ y # ys) = xs"
  by (induction xs) auto

lemma dropWhile_token:
  "list_all P xs \<Longrightarrow> \<not> P y \<Longrightarrow> dropWhile P (xs @ y # ys) = y # ys"
  by (induction xs) auto

lemma fmt6_shape:
  "\<exists>ip fp. fmt6 x = (if x < 0 then ''-'' else []) @ ip @ CHR ''.'' # fp \<and>
           ip \<noteq> [] \<and> list_all is_digit ip \<and> list_all is_digit fp \<and> length fp = 6 \<and>
           (\<exists>c cs. ip = c # cs \<and> is_digit c) \<and>
           real (read_nat ip) + real (read_nat fp) / 10 ^ length fp =
             real (nat (round_half_even (\<bar>x\<bar> * 1000000))) / 1000000"
proof -
  let ?m = "nat (round_half_even (\<bar>x\<bar> * 1000000))"
  let ?frac = "show_nat (?m mod 1000000)"
  let ?ip = "show_nat (?m div 1000000)"
  let ?fp = "replicate (6 - length ?frac) CHR ''0'' @ ?frac"
  have len: "length ?frac \<le> 6"
    by (rule length_show_nat) simp_all
  then have l6: "length ?fp = 6" by simp
  have zero: "is_digit CHR ''0''" by (simp add: is_digit_def)
  have dfp: "list_all is_digit ?fp"
    using show_nat_digits[of "?m mod 1000000"] zero by (auto simp: list_all_iff)
  have rfp: "read_nat ?fp = ?m mod 1000000"
    by (simp add: read_nat_zeros read_show_nat)
  have "real ?m = real ((?m div 1000000) * 1000000 + ?m mod 1000000)" by simp
  also have "\<dots> = real (?m div 1000000) * 1000000 + real (?m mod 1000000)"
    by (simp only: of_nat_add of_nat_mult of_nat_numeral)
  finally have "real (?m div 1000000) + real (?m mod 1000000) / 1000000 = real ?m / 1000000"
    by simp
  then have val: "real (read_nat ?ip) + real (read_nat ?fp) / 10 ^ length ?fp =
                    real ?m / 1000000"
    by (simp only: l6 rfp read_show_nat) simp
  have shape: "fmt6 x = (if x < 0 then ''-'' else []) @ ?ip @ CHR ''.'' # ?fp"
    by (simp add: fmt6_def Let_def)
  from shape show_nat_nonempty show_nat_digits dfp l6 show_nat_Cons[of "?m div 1000000"] val
  show ?thesis by blast
qed

lemma plain_float_fmt6: "plain_float (fmt6 x) = Some (fmt6_value x)"
proof -
  from fmt6_shape[of x] obtain ip fp c cs where
    shape: "fmt6 x = (if x < 0 then ''-'' else []) @ ip @ CHR ''.'' # fp" and
    ip: "ip \<noteq> []" "list_all is_digit ip" "ip = c # cs" "is_digit c" and
    fp: "list_all is_digit fp" and
    val: "real (read_nat ip) + real (read_nat fp) / 10 ^ length fp =
             real (nat (round_half_even (\<bar>x\<bar> * 1000000))) / 1000000"
    by blast
  have nd: "\<not> is_digit CHR ''.''" by (simp add: is_digit_def)
  have tw: "takeWhile is_digit (ip @ CHR ''.'' # fp) = ip"
    by (rule takeWhile_token[OF ip(2) nd])
  have dw: "dropWhile is_digit (ip @ CHR ''.'' # fp) = CHR ''.'' # fp"
    by (rule dropWhile_token[OF ip(2) nd])
  have ss: "strip_sign (fmt6 x) = (x < 0, ip @ CHR ''.'' # fp)"
  proof (cases "x < 0")
    case True
    with shape show ?thesis by (simp add: strip_sign_def)
  next
    case False
    with shape ip(3,4) show ?thesis by (simp add: strip_sign_digit)
  qed
  have tf: "takeWhile is_digit fp = fp" "dropWhile is_digit fp = []"
    using fp by (simp_all add: list_all_iff)
  have "plain_float (fmt6 x) =
          Some ((if x < 0 then - 1 else 1) *
                (real (read_nat ip) + real (read_nat fp) / 10 ^ length fp))"
    using ip(1) by (simp add: plain_float_def ss tw dw tf Let_def)
  then show ?thesis
    by (simp only: val fmt6_value_def) simp
qed

lemma fmt6_no_underscore: "CHR ''_'' \<notin> set (fmt6 x)"
proof -
  from fmt6_shape[of x] obtain ip fp where
    shape: "fmt6 x = (if x < 0 then ''-'' else []) @ ip @ CHR ''.'' # fp" and
    d: "list_all is_digit ip" "list_all is_digit fp"
    by blast
  from d have "CHR ''_'' \<notin> set ip" "CHR ''_'' \<notin> set fp"
    using is_digit_not_special(5) by (auto simp: list_all_iff)
  with shape show ?thesis by (auto split: if_splits)
qed

lemma fmt6_not_a_word:
  "\<exists>neg c rest. strip_sign (fmt6 x) = (neg, c # rest) \<and> is_digit c"
proof -
  from fmt6_shape[of x] obtain ip fp c cs where
    shape: "fmt6 x = (if x < 0 then ''-'' else []) @ ip @ CHR ''.'' # fp" and
    ip: "ip = c # cs" "is_digit c"
    by blast
  show ?thesis
  proof (cases "x < 0")
    case True
    with shape ip have "strip_sign (fmt6 x) = (True, c # cs @ CHR ''.'' # fp)"
      by (simp add: strip_sign_def)
    with ip(2) show ?thesis by blast
  next
    case False
    with shape ip have "strip_sign (fmt6 x) = (False, c # cs @ CHR ''.'' # fp)"
      by (simp add: strip_sign_digit)
    with ip(2) show ?thesis by blast
  qed
qed

lemma py_float_fmt6: "py_float (fmt6 x) = Some (Finite (fmt6_value x))"
proof -
  from fmt6_not_a_word[of x] obtain neg c rest where
    ss: "strip_sign (fmt6 x) = (neg, c # rest)" and c: "is_digit c" by blast
  from c have w: "lower (c # rest) \<noteq> ''inf''" "lower (c # rest) \<noteq> ''infinity''"
    "lower (c # rest) \<noteq> ''nan''"
    by (auto simp: lower_def is_digit_not_special)
  have u: "drop_underscores (CHR 0x00) (fmt6 x) = Some (fmt6 x)"
    by (rule drop_underscores_id) (simp_all add: fmt6_no_underscore)
  show ?thesis
    by (simp add: py_float_def u ss w plain_float_fmt6)
qed

lemma fmt6_no_space: "c \<in> set (fmt6 x) \<Longrightarrow> \<not> is_space c"
proof -
  assume c: "c \<in> set (fmt6 x)"
  from fmt6_shape[of x] obtain ip fp where
    shape: "fmt6 x = (if x < 0 then ''-'' else []) @ ip @ CHR ''.'' # fp" and
    d: "list_all is_digit ip" "list_all is_digit fp"
    by blast
  have sp: "\<not> is_space CHR ''-''" "\<not> is_space CHR ''.''" by (simp_all add: is_space_def)
  from c shape have "c = CHR ''-'' \<or> c \<in> set ip \<or> c = CHR ''.'' \<or> c \<in> set fp"
    by (auto split: if_splits)
  with d sp show ?thesis
    by (auto simp: list_all_iff is_digit_not_special)
qed

lemma fmt6_nonempty: "fmt6 x \<noteq> []"
  using fmt6_shape[of x] by auto

lemma show_int_no_space: "c \<in> set (show_int i) \<Longrightarrow> \<not> is_space c"
proof -
  assume c: "c \<in> set (show_int i)"
  have sp: "\<not> is_space CHR ''-''" by (simp add: is_space_def)
  from c have "c = CHR ''-'' \<or> (\<exists>n. c \<in> set (show_nat n))"
    by (auto simp: show_int_def split: if_splits)
  with sp show ?thesis
    using show_nat_digits by (auto simp: list_all_iff is_digit_not_special)
qed

lemma show_int_nonempty: "show_int i \<noteq> []"
  by (simp add: show_int_def show_nat_nonempty)

section \<open>Properties of the label round trip\<close>

lemma split_acc_token:
  "\<forall>c\<in>set t. \<not> is_space c \<Longrightarrow> split_acc cur (t @ rest) = split_acc (rev t @ cur) rest"
  by (induction t arbitrary: cur) simp_all

lemma split_acc_token_space:
  assumes "\<forall>c\<in>set t. \<not> is_space c" and "t \<noteq> []"
  shows "split_acc [] (t @ CHR '' '' # rest) = t # split_acc [] rest"
proof -
  have sp: "is_space CHR '' ''" by (simp add: is_space_def)
  from split_acc_token[OF assms(1), of "[]" "CHR '' '' # rest"] assms(2) sp
  show ?thesis by simp
qed

lemma split_acc_token_end:
  assumes "\<forall>c\<in>set t. \<not> is_space c" and "t \<noteq> []"
  shows "split_acc [] t = [t]"
  using split_acc_token[OF assms(1), of "[]" "[]"] assms(2) by simp

lemma strip_id:
  assumes "s \<noteq> []" and "\<not> is_space (hd s)" and "\<not> is_space (last s)"
  shows "strip s = s"
proof -
  from assms(1,2) have a: "dropWhile is_space s = s" by (cases s) auto
  from assms(1) obtain ys y where s: "s = ys @ [y]" by (cases s rule: rev_cases) auto
  with assms(3) have "dropWhile is_space (rev s) = rev s" by simp
  with a show ?thesis by (simp add: strip_def)
qed

lemma five_token_line:
  assumes "\<forall>c\<in>set t0. \<not> is_space c" and "t0 \<noteq> []"
    and "\<forall>c\<in>set t1. \<not> is_space c" and "t1 \<noteq> []"
    and "\<forall>c\<in>set t2. \<not> is_space c" and "t2 \<noteq> []"
    and "\<forall>c\<in>set t3. \<not> is_space c" and "t3 \<noteq> []"
    and "\<forall>c\<in>set t4. \<not> is_space c" and "t4 \<noteq> []"
  shows "split_ws (strip (t0 @ '' '' @ t1 @ '' '' @ t2 @ '' '' @ t3 @ '' '' @ t4)) =
           [t0, t1, t2, t3, t4]"
proof -
  let ?line = "t0 @ '' '' @ t1 @ '' '' @ t2 @ '' '' @ t3 @ '' '' @ t4"
  have ne: "?line \<noteq> []" using assms(2) by simp
  have h: "hd ?line = hd t0" using assms(2) by simp
  have l: "last ?line = last t4" using assms(10) by simp
  have "\<not> is_space (hd t0)" using assms(1,2) by (cases t0) auto
  moreover have "\<not> is_space (last t4)" using assms(9,10) last_in_set[of t4] by blast
  ultimately have s: "strip ?line = ?line"
    using strip_id[OF ne] h l by simp
  have "split_acc [] ?line = [t0, t1, t2, t3, t4]"
    using split_acc_token_space[OF assms(1,2)] split_acc_token_space[OF assms(3,4)]
          split_acc_token_space[OF assms(5,6)] split_acc_token_space[OF assms(7,8)]
          split_acc_token_end[OF assms(9,10)]
    by simp
  with s show ?thesis by (simp add: split_ws_def)
qed

lemma yolo_line_text:
  "yolo_line w h (x1, y1, x2, y2, cls) =
     show_int cls @ '' '' @ fmt6 (((x1 + x2) / 2) / real_of_int w) @ '' '' @
     fmt6 (((y1 + y2) / 2) / real_of_int h) @ '' '' @
     fmt6 ((x2 - x1) / real_of_int w) @ '' '' @ fmt6 ((y2 - y1) / real_of_int h)"
  by (simp add: yolo_line_def Let_def)

lemma yolo_line_tokens:
  "split_ws (strip (yolo_line w h (x1, y1, x2, y2, cls))) =
     [show_int cls, fmt6 (((x1 + x2) / 2) / real_of_int w),
      fmt6 (((y1 + y2) / 2) / real_of_int h),
      fmt6 ((x2 - x1) / real_of_int w), fmt6 ((y2 - y1) / real_of_int h)]"
  unfolding yolo_line_text
  by (rule five_token_line)
     (simp_all add: show_int_no_space show_int_nonempty fmt6_no_space fmt6_nonempty)

lemma five_tokens_yolo_line: "five_tokens (yolo_line w h b)"
proof -
  obtain x1 y1 x2 y2 cls where "b = (x1, y1, x2, y2, cls)" by (cases b)
  then show ?thesis by (simp add: five_tokens_def yolo_line_tokens)
qed

lemma parse_label_saved:
  "parse_label w h [show_int cls, fmt6 a, fmt6 b, fmt6 c, fmt6 d] =
     Inr (fmt6_value a * real_of_int w - fmt6_value c * real_of_int w / 2,
          fmt6_value b * real_of_int h - fmt6_value d * real_of_int h / 2,
          fmt6_value a * real_of_int w + fmt6_value c * real_of_int w / 2,
          fmt6_value b * real_of_int h + fmt6_value d * real_of_int h / 2,
          cls)"
  by (simp add: py_int_show_int py_float_fmt6 Let_def)

lemma line_box_yolo_line:
  "line_box w h (yolo_line w h (x1, y1, x2, y2, cls)) =
     Some (fmt6_value (((x1 + x2) / 2) / real_of_int w) * real_of_int w
             - fmt6_value ((x2 - x1) / real_of_int w) * real_of_int w / 2,
           fmt6_value (((y1 + y2) / 2) / real_of_int h) * real_of_int h
             - fmt6_value ((y2 - y1) / real_of_int h) * real_of_int h / 2,
           fmt6_value (((x1 + x2) / 2) / real_of_int w) * real_of_int w
             + fmt6_value ((x2 - x1) / real_of_int w) * real_of_int w / 2,
           fmt6_value (((y1 + y2) / 2) / real_of_int h) * real_of_int h
             + fmt6_value ((y2 - y1) / real_of_int h) * real_of_int h / 2,
           cls)"
  by (simp only: line_box_def yolo_line_tokens parse_label_saved sum.case)

lemma reload_coordinate_close:
  fixes c s d :: real
  assumes "0 < d" and "\<bar>vc - c / d\<bar> \<le> 1 / 2000000" and "\<bar>vs - s / d\<bar> \<le> 1 / 2000000"
  shows "\<bar>(vc * d - vs * d / 2) - (c - s / 2)\<bar> \<le> d / 1000000"
    and "\<bar>(vc * d + vs * d / 2) - (c + s / 2)\<bar> \<le> d / 1000000"
proof -
  define a where "a = (vc - c / d) * d"
  define b where "b = (vs - s / d) * d"
  from assms(1) have vc: "vc * d = c + a" and vs: "vs * d = s + b"
    by (simp_all add: a_def b_def field_simps)
  from assms have "\<bar>vc - c / d\<bar> * d \<le> 1 / 2000000 * d"
    and "\<bar>vs - s / d\<bar> * d \<le> 1 / 2000000 * d"
    by (simp_all add: mult_right_mono)
  with assms(1) have "\<bar>a\<bar> \<le> d / 2000000" "\<bar>b\<bar> \<le> d / 2000000"
    by (simp_all add: a_def b_def abs_mult)
  then have ab: "- (d / 2000000) \<le> a" "a \<le> d / 2000000"
    "- (d / 2000000) \<le> b" "b \<le> d / 2000000"
    by (simp_all add: abs_le_iff)
  have lo: "a - b / 2 \<le> d / 1000000 \<and> - (a - b / 2) \<le> d / 1000000"
    and hi: "a + b / 2 \<le> d / 1000000 \<and> - (a + b / 2) \<le> d / 1000000"
    using ab assms(1) by (intro conjI; linarith)+
  have e1: "(vc * d - vs * d / 2) - (c - s / 2) = a - b / 2"
    unfolding vc vs by (simp add: field_simps)
  from lo show "\<bar>(vc * d - vs * d / 2) - (c - s / 2)\<bar> \<le> d / 1000000"
    unfolding e1 abs_le_iff .
  have e2: "(vc * d + vs * d / 2) - (c + s / 2) = a + b / 2"
    unfolding vc vs by (simp add: field_simps)
  from hi show "\<bar>(vc * d + vs * d / 2) - (c + s / 2)\<bar> \<le> d / 1000000"
    unfolding e2 abs_le_iff .
qed

lemma line_box_close:
  assumes "0 < w" and "0 < h"
  shows "\<exists>b'. line_box w h (yolo_line w h b) = Some b' \<and> box_close w h b b'"
proof -
  obtain x1 y1 x2 y2 cls where b: "b = (x1, y1, x2, y2, cls)" by (cases b)
  from assms have w: "0 < real_of_int w" and h: "0 < real_of_int h" by simp_all
  note e = fmt6_value_error
  have x: "\<bar>fmt6_value (((x1 + x2) / 2) / real_of_int w) - ((x1 + x2) / 2) / real_of_int w\<bar>
             \<le> 1 / 2000000"
    and xs: "\<bar>fmt6_value ((x2 - x1) / real_of_int w) - (x2 - x1) / real_of_int w\<bar>
             \<le> 1 / 2000000"
    and y: "\<bar>fmt6_value (((y1 + y2) / 2) / real_of_int h) - ((y1 + y2) / 2) / real_of_int h\<bar>
             \<le> 1 / 2000000"
    and ys: "\<bar>fmt6_value ((y2 - y1) / real_of_int h) - (y2 - y1) / real_of_int h\<bar>
             \<le> 1 / 2000000"
    by (rule e)+
  have c1: "(x1 + x2) / 2 - (x2 - x1) / 2 = x1" and c2: "(x1 + x2) / 2 + (x2 - x1) / 2 = x2"
    and c3: "(y1 + y2) / 2 - (y2 - y1) / 2 = y1" and c4: "(y1 + y2) / 2 + (y2 - y1) / 2 = y2"
    by (simp_all add: field_simps)
  from reload_coordinate_close[OF w x xs] reload_coordinate_close[OF h y ys]
  have "box_close w h (x1, y1, x2, y2, cls)
          (fmt6_value (((x1 + x2) / 2) / real_of_int w) * real_of_int w
             - fmt6_value ((x2 - x1) / real_of_int w) * real_of_int w / 2,
           fmt6_value (((y1 + y2) / 2) / real_of_int h) * real_of_int h
             - fmt6_value ((y2 - y1) / real_of_int h) * real_of_int h / 2,
           fmt6_value (((x1 + x2) / 2) / real_of_int w) * real_of_int w
             + fmt6_value ((x2 - x1) / real_of_int w) * real_of_int w / 2,
           fmt6_value (((y1 + y2) / 2) / real_of_int h) * real_of_int h
             + fmt6_value ((y2 - y1) / real_of_int h) * real_of_int h / 2,
           cls)"
    by (simp only: box_close_def prod.case c1 c2 c3 c4 simp_thms)
  with b line_box_yolo_line[of w h x1 y1 x2 y2 cls] show ?thesis by simp
qed

lemma yolo_lines_map:
  "w \<noteq> 0 \<Longrightarrow> h \<noteq> 0 \<Longrightarrow> yolo_lines w h bs = (map (yolo_line w h) bs, None)"
  by (induction bs) simp_all

lemma reload_saved_lines:
  assumes "0 < w" and "0 < h"
  shows "\<exists>bs'. List.map_filter (line_box w h) (map (yolo_line w h) bs) = bs' \<and>
               list_all2 (box_close w h) bs bs'"
proof (induction bs)
  case Nil
  show ?case by (simp add: List.map_filter_simps)
next
  case (Cons b bs)
  from line_box_close[OF assms, of b] obtain b' where
    b': "line_box w h (yolo_line w h b) = Some b'" "box_close w h b b'" by blast
  with Cons show ?case by (simp add: List.map_filter_simps)
qed

lemma saved_lines_all_load:
  "takeWhile (line_loads w h) (map (yolo_line w h) bs) = map (yolo_line w h) bs"
proof -
  have "line_loads w h (yolo_line w h b)" for b
  proof -
    obtain x1 y1 x2 y2 cls where "b = (x1, y1, x2, y2, cls)" by (cases b)
    then show ?thesis by (simp add: line_loads_def line_box_yolo_line)
  qed
  then show ?thesis by (simp add: takeWhile_eq_all_conv)
qed

lemma saved_lines_all_five:
  "filter five_tokens (map (yolo_line w h) bs) = map (yolo_line w h) bs"
  by (simp add: five_tokens_yolo_line)

lemma saved_lines_finite: "\<forall>l\<in>set (map (yolo_line w h) bs). line_finite w h l"
proof -
  have "line_finite w h (yolo_line w h b)" for b
  proof -
    obtain x1 y1 x2 y2 cls where "b = (x1, y1, x2, y2, cls)" by (cases b)
    then show ?thesis
      by (simp only: line_finite_def yolo_line_tokens parse_label_saved) simp
  qed
  then show ?thesis by simp
qed

lemma digit_chars:
  "digit_char 0 = CHR ''0''" "digit_char 1 = CHR ''1''" "digit_char 2 = CHR ''2''"
  "digit_char 3 = CHR ''3''" "digit_char 4 = CHR ''4''" "digit_char 5 = CHR ''5''"
  "digit_char 6 = CHR ''6''" "digit_char 7 = CHR ''7''" "digit_char 8 = CHR ''8''"
  "digit_char 9 = CHR ''9''"
  by code_simp+

lemma demo_rounding: "round_half_even 300000 = 300000" "round_half_even 500000 = 500000"
  by (simp_all add: round_half_even_def)

lemma demo_show_nat:
  "show_nat 300000 = ''300000''" "show_nat 500000 = ''500000''" "show_nat 0 = ''0''"
  by (simp_all add: show_nat.simps digit_chars)

lemma demo_fmt6: "fmt6 (3 / 10) = ''0.300000''" "fmt6 (1 / 2) = ''0.500000''"
  by (simp_all add: fmt6_def Let_def demo_rounding demo_show_nat)

lemma demo_drawn_line:
  "yolo_line 200 400 (10, 20, 110, 220, 0) = ''0 0.300000 0.300000 0.500000 0.500000''"
  by (simp add: yolo_line_def show_int_def demo_fmt6 demo_show_nat)

lemma demo_drawn_five: "five_tokens ''0 0.300000 0.300000 0.500000 0.500000''"
  by code_simp

lemma demo_drawn_tokens:
  "split_ws (strip ''0 0.300000 0.300000 0.500000 0.500000'') =
     [''0'', ''0.300000'', ''0.300000'', ''0.500000'', ''0.500000'']"
  by code_simp

lemma demo_drawn_plain:
  "drop_underscores (CHR 0x00) ''0'' = Some ''0''"
  "drop_underscores (CHR 0x00) ''0.300000'' = Some ''0.300000''"
  "drop_underscores (CHR 0x00) ''0.500000'' = Some ''0.500000''"
  "lower ''0.300000'' = ''0.300000''" "lower ''0.500000'' = ''0.500000''"
  by code_simp+

lemma demo_drawn_numbers:
  "py_int ''0'' = Some 0" "py_float ''0.300000'' = Some (Finite (3 / 10))"
  "py_float ''0.500000'' = Some (Finite (1 / 2))"
  by (simp_all add: py_int_def py_float_def plain_int_def plain_float_def demo_drawn_plain
                    strip_sign_def is_digit_def read_nat_def digit_val_def Let_def)

lemma demo_drawn_parse:
  "parse_label 200 400 [''0'', ''0.300000'', ''0.300000'', ''0.500000'', ''0.500000''] =
     Inr (10, 20, 110, 220, 0)"
  by (simp add: demo_drawn_numbers)

lemma demo_drawn_reload:
  "line_box 200 400 ''0 0.300000 0.300000 0.500000 0.500000'' = Some (10, 20, 110, 220, 0)"
  by (simp only: line_box_def demo_drawn_tokens demo_drawn_parse sum.case)

lemma demo_drawn_finite: "line_finite 200 400 ''0 0.300000 0.300000 0.500000 0.500000''"
  by (simp only: line_finite_def demo_drawn_tokens demo_drawn_parse) simp

text \<open>
  C1. On an image of positive dimensions \<^verbatim>\<open>save_boxes\<close> writes one line per box:
  the class id followed by \<open>cx = ((x1+x2)/2)/w\<close>, \<open>cy = ((y1+y2)/2)/h\<close>,
  \<open>(x2-x1)/w\<close> and \<open>(y2-y1)/h\<close>, each with six decimals. Loading that file for the
  same image into an empty box list gives back as many boxes, in the same order, each
  with the class of the saved box and every coordinate within one millionth of the
  image dimension of its axis.
\<close>

theorem label_round_trip:
  assumes "images s \<noteq> []" and "labels_dir s = Some d"
    and "py_index (images s) (index s) = Inr img_name"
    and "0 < img_width s" and "0 < img_height s"
  shows "fst (save_boxes csv_table s files) (label_path d img_name) =
           Some (map (yolo_line (img_width s) (img_height s)) (boxes s)) \<and>
         yolo_line (img_width s) (img_height s) (x1, y1, x2, y2, cls) =
           show_int cls @ '' '' @
           fmt6 (((x1 + x2) / 2) / real_of_int (img_width s)) @ '' '' @
           fmt6 (((y1 + y2) / 2) / real_of_int (img_height s)) @ '' '' @
           fmt6 ((x2 - x1) / real_of_int (img_width s)) @ '' '' @
           fmt6 ((y2 - y1) / real_of_int (img_height s)) \<and>
         (\<exists>s'. load_existing_labels (s\<lparr> boxes := [] \<rparr>)
                  (fst (save_boxes csv_table s files)) = Inr s' \<and>
               list_all2 (box_close (img_width s) (img_height s)) (boxes s) (boxes s'))"
proof (intro conjI)
  let ?w = "img_width s" and ?h = "img_height s"
  let ?files' = "fst (save_boxes csv_table s files)"
  let ?lines = "map (yolo_line ?w ?h) (boxes s)"
  let ?t = "s\<lparr> boxes := [] \<rparr>"
  from assms(4,5) have nz: "?w \<noteq> 0" "?h \<noteq> 0" by simp_all
  have "fst (yolo_lines ?w ?h (boxes s)) = ?lines"
    by (simp only: yolo_lines_map[OF nz] fst_conv)
  with save_boxes_label_file[OF assms(1-3), of csv_table files]
  show a: "?files' (label_path d img_name) = Some ?lines"
    by (simp only:)
  show "yolo_line ?w ?h (x1, y1, x2, y2, cls) =
           show_int cls @ '' '' @
           fmt6 (((x1 + x2) / 2) / real_of_int ?w) @ '' '' @
           fmt6 (((y1 + y2) / 2) / real_of_int ?h) @ '' '' @
           fmt6 ((x2 - x1) / real_of_int ?w) @ '' '' @
           fmt6 ((y2 - y1) / real_of_int ?h)"
    by (rule yolo_line_text)
  have t1: "py_index (images ?t) (index ?t) = Inr img_name"
    using assms(3) by simp
  have t2: "labels_dir ?t = Some d"
    using assms(2) by simp
  note ll = load_lines_boxes[OF saved_lines_finite, of ?w ?h "boxes s" "[]" "class_names s"]
  from ll have nf: "snd (load_lines (img_width ?t) (img_height ?t) ?lines
                           (boxes ?t, class_names ?t)) \<noteq> Some NonFiniteFloat"
    by simp
  from load_existing_labels_boxes[of ?t img_name d ?files' ?lines, OF t1 t2 a nf]
  obtain s' where
    l: "load_existing_labels ?t ?files' = Inr s'" and
    b0: "boxes s' = fst (fst (load_lines (img_width ?t) (img_height ?t) ?lines
                                (boxes ?t, class_names ?t)))"
    by blast
  from ll have "fst (fst (load_lines ?w ?h ?lines ([], class_names s))) =
          [] @ List.map_filter (line_box ?w ?h) ?lines"
    by (simp only: saved_lines_all_load saved_lines_all_five)
  with b0 have b: "boxes s' = List.map_filter (line_box ?w ?h) ?lines"
    by simp
  from reload_saved_lines[OF assms(4,5), of "boxes s"] b
  have c: "list_all2 (box_close ?w ?h) (boxes s) (boxes s')" by simp
  from l c show "\<exists>s'. load_existing_labels ?t ?files' = Inr s' \<and>
               list_all2 (box_close ?w ?h) (boxes s) (boxes s')"
    by blast
qed

text \<open>The box (10, 20, 110, 220) on the 200 by 400 image is written as
  \<open>0 0.300000 0.300000 0.500000 0.500000\<close> and reloads to (10, 20, 110, 220).\<close>

theorem label_round_trip_witness:
  "images demo_drawn \<noteq> [] \<and> labels_dir demo_drawn = Some ''f/labels'' \<and>
   py_index (images demo_drawn) (index demo_drawn) = Inr ''B.png'' \<and>
   0 < img_width demo_drawn \<and> 0 < img_height demo_drawn \<and>
   fst (save_boxes demo_csv_table demo_drawn empty_fs) (label_path ''f/labels'' ''B.png'') =
     Some [''0 0.300000 0.300000 0.500000 0.500000''] \<and>
   (\<exists>s'. load_existing_labels (demo_drawn\<lparr> boxes := [] \<rparr>)
            (fst (save_boxes demo_csv_table demo_drawn empty_fs)) = Inr s' \<and>
         boxes s' = [(10, 20, 110, 220, 0)] \<and>
         list_all2 (box_close 200 400) [(10, 20, 110, 220, 0)] (boxes s'))"
proof -
  have f: "images demo_drawn \<noteq> []" "labels_dir demo_drawn = Some ''f/labels''"
    "0 < img_width demo_drawn" "0 < img_height demo_drawn"
    "img_width demo_drawn = 200" "img_height demo_drawn = 400"
    "boxes demo_drawn = [(10, 20, 110, 220, 0)]"
    by (simp_all add: demo_drawn_def demo_session_def demo_labeler_def init_labeler_def)
  have i: "py_index (images demo_drawn) (index demo_drawn) = Inr ''B.png''"
    by (simp add: py_index_def demo_drawn_def demo_session_def)
  note rt = label_round_trip[OF f(1,2) i f(3,4), of demo_csv_table empty_fs 10 20 110 220 0]
  from rt have a: "fst (save_boxes demo_csv_table demo_drawn empty_fs)
                     (label_path ''f/labels'' ''B.png'') =
                   Some [''0 0.300000 0.300000 0.500000 0.500000'']"
    by (simp only: f list.map demo_drawn_line)
  from rt obtain s' where
    l: "load_existing_labels (demo_drawn\<lparr> boxes := [] \<rparr>)
            (fst (save_boxes demo_csv_table demo_drawn empty_fs)) = Inr s'" and
    c: "list_all2 (box_close 200 400) [(10, 20, 110, 220, 0)] (boxes s')"
    unfolding f by blast
  have fin: "\<forall>l\<in>set [''0 0.300000 0.300000 0.500000 0.500000'']. line_finite 200 400 l"
    by (simp add: demo_drawn_finite)
  note ll = load_lines_boxes[OF fin, of "[]" "class_names demo_drawn"]
  have t: "py_index (images (demo_drawn\<lparr> boxes := [] \<rparr>)) (index (demo_drawn\<lparr> boxes := [] \<rparr>)) =
             Inr ''B.png''"
    "labels_dir (demo_drawn\<lparr> boxes := [] \<rparr>) = Some ''f/labels''"
    using i f by simp_all
  have nf: "snd (load_lines (img_width (demo_drawn\<lparr> boxes := [] \<rparr>))
                   (img_height (demo_drawn\<lparr> boxes := [] \<rparr>))
                   [''0 0.300000 0.300000 0.500000 0.500000'']
                   (boxes (demo_drawn\<lparr> boxes := [] \<rparr>),
                    class_names (demo_drawn\<lparr> boxes := [] \<rparr>))) \<noteq> Some NonFiniteFloat"
    using ll by (simp add: f)
  from load_existing_labels_boxes[of "demo_drawn\<lparr> boxes := [] \<rparr>" "''B.png''" "''f/labels''"
         "fst (save_boxes demo_csv_table demo_drawn empty_fs)"
         "[''0 0.300000 0.300000 0.500000 0.500000'']", OF t a nf] l
  have b0: "boxes s' = fst (fst (load_lines 200 400 [''0 0.300000 0.300000 0.500000 0.500000'']
                               ([], class_names demo_drawn)))"
    by (auto simp: f)
  have "line_loads 200 400 ''0 0.300000 0.300000 0.500000 0.500000''"
    by (simp add: line_loads_def demo_drawn_reload)
  with ll have "fst (fst (load_lines 200 400 [''0 0.300000 0.300000 0.500000 0.500000'']
                               ([], class_names demo_drawn))) = [(10, 20, 110, 220, 0)]"
    by (simp add: demo_drawn_five demo_drawn_reload List.map_filter_simps)
  with b0 have b: "boxes s' = [(10, 20, 110, 220, 0)]" by (simp only:)
  from l b c have "\<exists>s'. load_existing_labels (demo_drawn\<lparr> boxes := [] \<rparr>)
            (fst (save_boxes demo_csv_table demo_drawn empty_fs)) = Inr s' \<and>
         boxes s' = [(10, 20, 110, 220, 0)] \<and>
         list_all2 (box_close 200 400) [(10, 20, 110, 220, 0)] (boxes s')"
    by blast
  with f(1-4) i a show ?thesis by (intro conjI)
qed

end
